theory Spec2Isabelle
  imports Main "HOL-Library.Word"
begin

section \<open>Strings and bytes\<close>

text \<open>
  A JavaScript string is a sequence of 16-bit code units; a \<open>Buffer\<close> is a sequence of
  bytes. String literals of the source are ASCII and are written as HOL strings,
  embedded by \<open>js\<close>.
\<close>

type_synonym jschar = "16 word"
type_synonym jsstring = "jschar list"
type_synonym buffer = "char list"

definition js :: "string \<Rightarrow> jsstring" where
  "js s = map of_char s"

section \<open>ResponseNormalizer: \<open>cleanCode\<close> (server.js, lines 127-131)\<close>

text \<open>
  \<open>s.replace(/\\x/g, r)\<close> for a regular expression that is the two literal code units
  \<open>a b\<close> and a replacement of one code unit \<open>r\<close>: the string is scanned from the left,
  each match is replaced, and scanning resumes after the match.
\<close>

fun replace_g :: "jschar \<Rightarrow> jschar \<Rightarrow> jschar \<Rightarrow> jsstring \<Rightarrow> jsstring" where
  "replace_g a b r (x # y # zs) =
     (if x = a \<and> y = b then r # replace_g a b r zs else x # replace_g a b r (y # zs))"
| "replace_g a b r [x] = [x]"
| "replace_g a b r [] = []"

definition backslash :: jschar where "backslash = 0x5C"
definition letter_n :: jschar where "letter_n = 0x6E"
definition letter_t :: jschar where "letter_t = 0x74"
definition dquote :: jschar where "dquote = 0x22"
definition newline :: jschar where "newline = 0x0A"
definition tab :: jschar where "tab = 0x09"

text \<open>
  \<open>String.prototype.trim\<close> removes the code units of ECMAScript's WhiteSpace and
  LineTerminator productions from both ends.
\<close>

definition white_space :: "jschar list" where
  "white_space =
     [0x09, 0x0A, 0x0B, 0x0C, 0x0D, 0x20, 0xA0, 0x1680,
      0x2000, 0x2001, 0x2002, 0x2003, 0x2004, 0x2005, 0x2006, 0x2007, 0x2008, 0x2009, 0x200A,
      0x2028, 0x2029, 0x202F, 0x205F, 0x3000, 0xFEFF]"

definition is_space :: "jschar \<Rightarrow> bool" where
  "is_space c = (c \<in> set white_space)"

definition trim :: "jsstring \<Rightarrow> jsstring" where
  "trim s = rev (dropWhile is_space (rev (dropWhile is_space s)))"

definition cleanCode :: "jsstring \<Rightarrow> jsstring" where
  "cleanCode raw =
     trim (replace_g backslash dquote dquote
            (replace_g backslash letter_t tab
              (replace_g backslash letter_n newline raw)))"

text \<open>An occurrence of the two code units \<open>a b\<close> next to each other.\<close>

fun has_pair :: "jschar \<Rightarrow> jschar \<Rightarrow> jsstring \<Rightarrow> bool" where
  "has_pair a b (x # y # zs) = ((x = a \<and> y = b) \<or> has_pair a b (y # zs))"
| "has_pair a b [x] = False"
| "has_pair a b [] = False"

text \<open>
  The three replacements as the spec words them, in one pass over the input: every
  backslash-n, backslash-t and backslash-quote of the input becomes the character it
  names. This is the specification \<open>cleanCode\<close> is compared with.
\<close>

fun spec_unescape :: "jsstring \<Rightarrow> jsstring" where
  "spec_unescape (x # y # zs) =
     (if x = backslash \<and> y = letter_n then newline # spec_unescape zs
      else if x = backslash \<and> y = letter_t then tab # spec_unescape zs
      else if x = backslash \<and> y = dquote then dquote # spec_unescape zs
      else x # spec_unescape (y # zs))"
| "spec_unescape [x] = [x]"
| "spec_unescape [] = []"

section \<open>KeyCodec: \<open>cacheKey\<close> (server.js, line 61)\<close>

text \<open>
  \<open>Buffer.from(prompt)\<close> encodes the string as UTF-8. A surrogate pair becomes the four
  bytes of its code point; a surrogate that is not part of a pair becomes the three bytes
  of U+FFFD.
\<close>

definition utf8_unit :: "jschar \<Rightarrow> buffer" where
  "utf8_unit u =
     (let n = unat u in
      if n < 0x80 then [char_of n]
      else if n < 0x800 then [char_of (0xC0 + n div 64), char_of (0x80 + n mod 64)]
      else if 0xD800 \<le> n \<and> n < 0xE000 then [char_of (0xEF::nat), char_of (0xBF::nat), char_of (0xBD::nat)]
      else [char_of (0xE0 + n div 4096), char_of (0x80 + (n div 64) mod 64),
            char_of (0x80 + n mod 64)])"

definition utf8_pair :: "jschar \<Rightarrow> jschar \<Rightarrow> buffer" where
  "utf8_pair hi lo =
     (let cp = 0x10000 + (unat hi - 0xD800) * 1024 + (unat lo - 0xDC00) in
      [char_of (0xF0 + cp div 262144), char_of (0x80 + (cp div 4096) mod 64),
       char_of (0x80 + (cp div 64) mod 64), char_of (0x80 + cp mod 64)])"

definition high_surrogate :: "jschar \<Rightarrow> bool" where
  "high_surrogate u = (0xD800 \<le> unat u \<and> unat u < 0xDC00)"

definition low_surrogate :: "jschar \<Rightarrow> bool" where
  "low_surrogate u = (0xDC00 \<le> unat u \<and> unat u < 0xE000)"

fun utf8 :: "jsstring \<Rightarrow> buffer" where
  "utf8 (u # v # vs) =
     (if high_surrogate u \<and> low_surrogate v then utf8_pair u v @ utf8 vs
      else utf8_unit u @ utf8 (v # vs))"
| "utf8 [u] = utf8_unit u"
| "utf8 [] = []"

text \<open>
  A string read as code points: a high surrogate followed by a low surrogate is one
  token, every other code unit is a token of its own. This is how \<open>utf8\<close> walks the
  string. A string is well formed when no surrogate stands alone.
\<close>

datatype token = Unit jschar | Pair jschar jschar

fun tokens :: "jsstring \<Rightarrow> token list" where
  "tokens (u # v # vs) =
     (if high_surrogate u \<and> low_surrogate v then Pair u v # tokens vs
      else Unit u # tokens (v # vs))"
| "tokens [u] = [Unit u]"
| "tokens [] = []"

fun encode_token :: "token \<Rightarrow> buffer" where
  "encode_token (Unit u) = utf8_unit u"
| "encode_token (Pair u v) = utf8_pair u v"

fun token_units :: "token \<Rightarrow> jsstring" where
  "token_units (Unit u) = [u]"
| "token_units (Pair u v) = [u, v]"

fun lone_surrogate :: "token \<Rightarrow> bool" where
  "lone_surrogate (Unit u) = (high_surrogate u \<or> low_surrogate u)"
| "lone_surrogate (Pair u v) = False"

definition well_formed :: "jsstring \<Rightarrow> bool" where
  "well_formed s = (\<not> list_ex lone_surrogate (tokens s))"

text \<open>
  The bytes of a token as numbers, the code point of a surrogate pair, and the number of
  bytes that a first byte announces.
\<close>

definition unit_bytes :: "nat \<Rightarrow> nat list" where
  "unit_bytes n =
     (if n < 0x80 then [n]
      else if n < 0x800 then [0xC0 + n div 64, 0x80 + n mod 64]
      else [0xE0 + n div 4096, 0x80 + (n div 64) mod 64, 0x80 + n mod 64])"

definition pair_bytes :: "nat \<Rightarrow> nat list" where
  "pair_bytes cp = [0xF0 + cp div 262144, 0x80 + (cp div 4096) mod 64,
       0x80 + (cp div 64) mod 64, 0x80 + cp mod 64]"

definition code_point :: "jschar \<Rightarrow> jschar \<Rightarrow> nat" where
  "code_point hi lo = 0x10000 + (unat hi - 0xD800) * 1024 + (unat lo - 0xDC00)"

fun token_bytes :: "token \<Rightarrow> nat list" where
  "token_bytes (Unit u) = unit_bytes (unat u)"
| "token_bytes (Pair u v) = pair_bytes (code_point u v)"

definition valid_token :: "token \<Rightarrow> bool" where
  "valid_token t = (case t of Unit u \<Rightarrow> \<not> high_surrogate u \<and> \<not> low_surrogate u
                     | Pair u v \<Rightarrow> high_surrogate u \<and> low_surrogate v)"

definition lead_len :: "nat \<Rightarrow> nat" where
  "lead_len b = (if b < 128 then 1 else if b < 224 then 2 else if b < 240 then 3 else 4)"

text \<open>
  \<open>buf.toString('base64')\<close>: three bytes become four characters of the alphabet, the
  last group is padded with \<open>=\<close>.
\<close>

definition base64_alphabet :: string where
  "base64_alphabet = ''ABCDEFGHIJKLMNOPQRSTUVWXYZabcdefghijklmnopqrstuvwxyz0123456789+/''"

definition sextet :: "nat \<Rightarrow> char" where
  "sextet n = base64_alphabet ! n"

fun base64 :: "buffer \<Rightarrow> string" where
  "base64 (a # b # c # rest) =
     sextet (of_char a div 4)
     # sextet ((of_char a mod 4) * 16 + of_char b div 16)
     # sextet ((of_char b mod 16) * 4 + of_char c div 64)
     # sextet (of_char c mod 64)
     # base64 rest"
| "base64 [a, b] =
     [sextet (of_char a div 4),
      sextet ((of_char a mod 4) * 16 + of_char b div 16),
      sextet ((of_char b mod 16) * 4),
      CHR ''='']"
| "base64 [a] =
     [sextet (of_char a div 4), sextet ((of_char a mod 4) * 16), CHR ''='', CHR ''='']"
| "base64 [] = []"

text \<open>
  \<open>`codegen:${model}:${language}:${Buffer.from(prompt).toString('base64')}`\<close>
\<close>

definition cacheKey :: "jsstring \<Rightarrow> jsstring \<Rightarrow> jsstring \<Rightarrow> jsstring" where
  "cacheKey model language prompt =
     js ''codegen:'' @ model @ js '':'' @ language @ js '':'' @ js (base64 (utf8 prompt))"

section \<open>Configuration (server.js, lines 20-31)\<close>

definition CONFIG_languages :: "jsstring list" where
  "CONFIG_languages =
     map js [''JavaScript'', ''C#'', ''C++'', ''Java'', ''Ruby'', ''Go'', ''Python'', ''Custom'']"

record model_info =
  maxTokens :: nat
  cost :: nat

definition CONFIG_models :: "(jsstring \<times> model_info) list" where
  "CONFIG_models =
     [(js ''gpt-4o-mini'', \<lparr>maxTokens = 128000, cost = 1\<rparr>),
      (js ''gpt-4o'', \<lparr>maxTokens = 128000, cost = 2\<rparr>),
      (js ''gpt-4-turbo'', \<lparr>maxTokens = 128000, cost = 3\<rparr>),
      (js ''claude-3-opus'', \<lparr>maxTokens = 200000, cost = 5\<rparr>),
      (js ''claude-3-5-sonnet'', \<lparr>maxTokens = 200000, cost = 4\<rparr>)]"

definition CONFIG_cacheTTL :: nat where
  "CONFIG_cacheTTL = 3600"

text \<open>
  \<open>CONFIG.models\<close> is an object literal, so \<open>CONFIG.models[model]\<close> finds the object's
  own properties first and then those of \<open>Object.prototype\<close>. The inherited values are
  functions (and \<open>Object.prototype\<close> itself for \<open>__proto__\<close>): all of them are truthy, and
  none has a \<open>maxTokens\<close> property.
\<close>

definition object_prototype_keys :: "jsstring list" where
  "object_prototype_keys =
     map js [''constructor'', ''__defineGetter__'', ''__defineSetter__'', ''hasOwnProperty'',
             ''__lookupGetter__'', ''__lookupSetter__'', ''isPrototypeOf'',
             ''propertyIsEnumerable'', ''toString'', ''valueOf'', ''__proto__'',
             ''toLocaleString'']"

datatype property = Own model_info | Inherited | Missing

definition models_lookup :: "jsstring \<Rightarrow> property" where
  "models_lookup m =
     (case map_of CONFIG_models m of
        Some info \<Rightarrow> Own info
      | None \<Rightarrow> if m \<in> set object_prototype_keys then Inherited else Missing)"

text \<open>\<open>CONFIG.models[model].maxTokens\<close>, \<open>None\<close> for \<open>undefined\<close>.\<close>

fun property_maxTokens :: "property \<Rightarrow> nat option" where
  "property_maxTokens (Own info) = Some (maxTokens info)"
| "property_maxTokens Inherited = None"
| "property_maxTokens Missing = None"

section \<open>Values, errors and the two collaborators\<close>

text \<open>
  JSON values as \<open>JSON.parse\<close> delivers them, with \<open>undefined\<close> for a property that is
  absent. Numbers are never inspected by the handler.
\<close>

datatype jsval =
    JUndefined
  | JNull
  | JBool bool
  | JNum int
  | JStr jsstring
  | JArr "jsval list"
  | JObj "(jsstring \<times> jsval) list"

text \<open>
  Reading the property \<open>code\<close> or \<open>explanation\<close> of a value: \<open>None\<close> when the read
  throws a TypeError (the value is \<open>null\<close> or \<open>undefined\<close>); a value that is not an
  object, or an object without the property, gives \<open>undefined\<close>.
\<close>

fun get_prop :: "jsval \<Rightarrow> jsstring \<Rightarrow> jsval option" where
  "get_prop JUndefined k = None"
| "get_prop JNull k = None"
| "get_prop (JObj kvs) k = Some (case map_of kvs k of Some v \<Rightarrow> v | None \<Rightarrow> JUndefined)"
| "get_prop v k = Some JUndefined"

text \<open>
  The request body after \<open>express.json()\<close>, restricted to the shape the endpoint
  documents: each of the three fields is a string or is absent.
\<close>

record request =
  prompt :: "jsstring option"
  language :: "jsstring option"
  model :: "jsstring option"

text \<open>
  An axios error carries \<open>message\<close> and, when the upstream answered with a status
  outside 2xx, \<open>response\<close>. Of the response the handler reads \<open>status\<close> and
  \<open>data?.message\<close>; \<open>data_message\<close> is that message when it is a non-empty string and
  \<open>None\<close> when it is absent or falsy.
\<close>

record http_response =
  status :: nat
  data_message :: "jsstring option"

datatype axios_result =
    Resolved jsval
  | Rejected jsstring "http_response option"

datatype js_error =
    TypeError jsstring
  | RedisError jsstring
  | AxiosError jsstring "http_response option"

fun error_message :: "js_error \<Rightarrow> jsstring" where
  "error_message (TypeError m) = m"
| "error_message (RedisError m) = m"
| "error_message (AxiosError m r) = m"

fun error_response :: "js_error \<Rightarrow> http_response option" where
  "error_response (TypeError m) = None"
| "error_response (RedisError m) = None"
| "error_response (AxiosError m r) = r"

text \<open>
  The cache backend: each key holds a value and the time (in seconds) at which it
  expires. \<open>GET\<close> finds an entry until its expiry time; \<open>SETEX\<close> overwrites the entry
  and sets its expiry to \<open>ttl\<close> seconds from now.
\<close>

type_synonym cache = "jsstring \<Rightarrow> (jsstring \<times> nat) option"

definition redis_get :: "cache \<Rightarrow> nat \<Rightarrow> jsstring \<Rightarrow> jsstring option" where
  "redis_get c t k =
     (case c k of
        Some (v, expiresAt) \<Rightarrow> if t < expiresAt then Some v else None
      | None \<Rightarrow> None)"

definition redis_setEx :: "cache \<Rightarrow> nat \<Rightarrow> jsstring \<Rightarrow> nat \<Rightarrow> jsstring \<Rightarrow> cache" where
  "redis_setEx c t k ttl v = c(k \<mapsto> (v, t + ttl))"

text \<open>
  What one invocation of the handler meets: the clock at the cache read, the seconds
  that pass until the cache write, whether \<open>redisClient.get\<close> or \<open>redisClient.setEx\<close>
  rejects (and with which message), how \<open>axios.post\<close> settles if it is called, and the
  message the engine gives a TypeError it throws.
\<close>

record env =
  now :: nat
  elapsed :: nat
  get_error :: "jsstring option"
  set_error :: "jsstring option"
  upstream :: axios_result
  type_error_message :: jsstring

text \<open>
  The calls the handler makes to its collaborators, in order. \<open>UpstreamPost\<close> records
  \<open>chatSettings.model\<close>, \<open>chatSettings.contextLength\<close> and the contents of the system
  and the user message.
\<close>

datatype effect =
    CacheGet jsstring
  | CacheSetEx jsstring nat jsstring
  | UpstreamPost jsstring "nat option" jsstring jsstring

type_synonym json_object = "(string \<times> jsval) list"

record reply =
  http_status :: nat
  body :: json_object

text \<open>
  \<open>res.status(n).json(obj)\<close>: \<open>JSON.stringify\<close> leaves out the properties whose value is
  \<open>undefined\<close>.
\<close>

definition res_json :: "nat \<Rightarrow> json_object \<Rightarrow> reply" where
  "res_json n obj = \<lparr>http_status = n, body = filter (\<lambda>kv. snd kv \<noteq> JUndefined) obj\<rparr>"

section \<open>RequestPipeline: \<open>app.post('/api/generate')\<close> (server.js, lines 43-153)\<close>

fun join :: "jsstring \<Rightarrow> jsstring list \<Rightarrow> jsstring" where
  "join sep [] = []"
| "join sep [x] = x"
| "join sep (x # y # ys) = x @ sep @ join sep (y # ys)"

text \<open>The \<open>catch\<close> block (lines 145-152).\<close>

definition catch_block :: "js_error \<Rightarrow> reply" where
  "catch_block error =
     res_json 500
       [(''status'', JBool False),
        (''error'', JStr (js ''Request failed: '' @
           (case error_response error of
              None \<Rightarrow> error_message error
            | Some r \<Rightarrow> (case data_message r of Some m \<Rightarrow> m | None \<Rightarrow> error_message error)))),
        (''retryable'', JBool (case error_response error of
                                 None \<Rightarrow> True
                               | Some r \<Rightarrow> status r \<ge> 500))]"

text \<open>Lines 72-74: the user message.\<close>

definition finalPrompt :: "jsstring \<Rightarrow> jsstring \<Rightarrow> jsstring" where
  "finalPrompt language' prompt' =
     (if language' = js ''Custom'' then prompt'
      else js ''Write '' @ language' @ js '' code for: '' @ prompt' @ [newline, newline]
           @ js ''Include comments and error handling.'')"

text \<open>
  Lines 76-124: the call \<open>axios.post(CONFIG.apiEndpoint, ...)\<close>.
  \<open>crypto.randomUUID()\<close> is taken to be available and does not throw.
\<close>

definition axios_post :: "jsstring \<Rightarrow> jsstring \<Rightarrow> jsstring \<Rightarrow> effect" where
  "axios_post model' language' prompt' =
     UpstreamPost model' (property_maxTokens (models_lookup model'))
       (js ''You are an expert '' @ language'
        @ js '' developer. Generate clean, efficient code with best practices.'')
       (finalPrompt language' prompt')"

text \<open>
  Lines 72-144, reached when the cache gave nothing: the upstream call, the
  normalisation of \<open>result.code\<close>, the cache write and the response. A thrown error is
  \<open>Inl\<close>; the cache and the calls made so far are returned beside it.
\<close>

definition on_miss ::
  "env \<Rightarrow> cache \<Rightarrow> jsstring \<Rightarrow> jsstring \<Rightarrow> jsstring \<Rightarrow> jsstring
     \<Rightarrow> (js_error + reply) \<times> cache \<times> effect list" where
  "on_miss e c model' language' prompt' key =
     (let calls = [CacheGet key, axios_post model' language' prompt']
      in case upstream e of
           Rejected message response \<Rightarrow> (Inl (AxiosError message response), c, calls)
         | Resolved result \<Rightarrow>
             (case get_prop result (js ''code'') of
                None \<Rightarrow> (Inl (TypeError (type_error_message e)), c, calls)
              | Some (JStr raw) \<Rightarrow>
                  (let clean = cleanCode raw;
                       (thrown, c', calls') =
                         (if clean \<noteq> [] then
                            (case set_error e of
                               Some message \<Rightarrow>
                                 (Some (RedisError message), c,
                                  calls @ [CacheSetEx key CONFIG_cacheTTL clean])
                             | None \<Rightarrow>
                                 (None,
                                  redis_setEx c (now e + elapsed e) key CONFIG_cacheTTL clean,
                                  calls @ [CacheSetEx key CONFIG_cacheTTL clean]))
                          else (None, c, calls))
                   in case thrown of
                        Some error \<Rightarrow> (Inl error, c', calls')
                      | None \<Rightarrow>
                          (Inr (res_json 200
                             [(''status'', JBool True),
                              (''code'', JStr (if clean \<noteq> [] then clean
                                               else js ''No code generated.'')),
                              (''explanation'',
                               (case get_prop result (js ''explanation'') of
                                  Some v \<Rightarrow> v | None \<Rightarrow> JUndefined)),
                              (''model'', JStr model'),
                              (''language'', JStr language'),
                              (''cached'', JBool False)]),
                           c', calls'))
              | Some other \<Rightarrow> (Inl (TypeError (type_error_message e)), c, calls)))"

text \<open>The language and the model of a request after the defaults of line 45.\<close>

definition language_of :: "request \<Rightarrow> jsstring" where
  "language_of req = (case language req of None \<Rightarrow> js ''JavaScript'' | Some l \<Rightarrow> l)"

definition model_of :: "request \<Rightarrow> jsstring" where
  "model_of req = (case model req of None \<Rightarrow> js ''gpt-4o-mini'' | Some m \<Rightarrow> m)"

text \<open>
  The \<open>try\<close> block (lines 44-144). \<open>Buffer.from(undefined)\<close> throws a TypeError;
  \<open>if (cached)\<close> holds for a non-empty string.
\<close>

definition try_block ::
  "env \<Rightarrow> cache \<Rightarrow> request \<Rightarrow> (js_error + reply) \<times> cache \<times> effect list" where
  "try_block e c req =
     (let language' = language_of req;
          model' = model_of req
      in if language' \<notin> set CONFIG_languages then
           (Inr (res_json 400
              [(''status'', JBool False),
               (''error'', JStr (js ''Unsupported language. Available: ''
                                 @ join (js '', '') CONFIG_languages))]),
            c, [])
         else if models_lookup model' = Missing then
           (Inr (res_json 400
              [(''status'', JBool False),
               (''error'', JStr (js ''Unsupported model. Available: ''
                                 @ join (js '', '') (map fst CONFIG_models)))]),
            c, [])
         else
           (case prompt req of
              None \<Rightarrow> (Inl (TypeError (type_error_message e)), c, [])
            | Some prompt' \<Rightarrow>
                (let key = cacheKey model' language' prompt'
                 in case get_error e of
                      Some message \<Rightarrow> (Inl (RedisError message), c, [CacheGet key])
                    | None \<Rightarrow>
                        (case redis_get c (now e) key of
                           None \<Rightarrow> on_miss e c model' language' prompt' key
                         | Some cached \<Rightarrow>
                             if cached \<noteq> [] then
                               (Inr (res_json 200
                                  [(''status'', JBool True),
                                   (''code'', JStr cached),
                                   (''cached'', JBool True)]),
                                c, [CacheGet key])
                             else on_miss e c model' language' prompt' key))))"

text \<open>The handler: the \<open>try\<close> block, and the \<open>catch\<close> block on a thrown error.\<close>

definition generate :: "env \<Rightarrow> cache \<Rightarrow> request \<Rightarrow> reply \<times> cache \<times> effect list" where
  "generate e c req =
     (case try_block e c req of
        (Inr r, c', calls) \<Rightarrow> (r, c', calls)
      | (Inl error, c', calls) \<Rightarrow> (catch_block error, c', calls))"

text \<open>A request whose language and model are in the two supported sets.\<close>

definition supported :: "request \<Rightarrow> bool" where
  "supported req =
     (language_of req \<in> set CONFIG_languages \<and> model_of req \<in> set (map fst CONFIG_models))"

text \<open>What a reply says, and what a run did.\<close>

definition field :: "reply \<Rightarrow> string \<Rightarrow> jsval option" where
  "field r k = map_of (body r) k"

fun is_cache_call :: "effect \<Rightarrow> bool" where
  "is_cache_call (CacheGet k) = True"
| "is_cache_call (CacheSetEx k ttl v) = True"
| "is_cache_call (UpstreamPost m n s u) = False"

fun is_cache_write :: "effect \<Rightarrow> bool" where
  "is_cache_write (CacheSetEx k ttl v) = True"
| "is_cache_write other = False"

fun is_upstream_call :: "effect \<Rightarrow> bool" where
  "is_upstream_call (UpstreamPost m n s u) = True"
| "is_upstream_call other = False"

text \<open>
  A request passes the two checks of lines 47-59; the key under which it is cached; a
  cache read that makes \<open>if (cached)\<close> succeed.
\<close>

definition validated :: "request \<Rightarrow> bool" where
  "validated req =
     (language_of req \<in> set CONFIG_languages \<and> models_lookup (model_of req) \<noteq> Missing)"

definition key_of :: "request \<Rightarrow> jsstring \<Rightarrow> jsstring" where
  "key_of req p = cacheKey (model_of req) (language_of req) p"

definition cache_hit :: "cache \<Rightarrow> nat \<Rightarrow> jsstring \<Rightarrow> bool" where
  "cache_hit c t k = (case redis_get c t k of Some v \<Rightarrow> v \<noteq> [] | None \<Rightarrow> False)"

text \<open>
  The object of the success response of lines 137-144, for the code text it carries.
\<close>

definition success_body :: "jsstring \<Rightarrow> jsval \<Rightarrow> jsstring \<Rightarrow> jsstring \<Rightarrow> json_object" where
  "success_body code' result m l =
     [(''status'', JBool True), (''code'', JStr code'),
      (''explanation'',
       (case get_prop result (js ''explanation'') of Some v \<Rightarrow> v | None \<Rightarrow> JUndefined)),
      (''model'', JStr m), (''language'', JStr l), (''cached'', JBool False)]"

text \<open>
  The cache after a sequence of requests has been handled one after the other, each in
  its own circumstances.
\<close>

fun serve :: "cache \<Rightarrow> (env \<times> request) list \<Rightarrow> cache" where
  "serve c [] = c"
| "serve c ((e, req) # rest) = serve (fst (snd (generate e c req))) rest"

section \<open>Example inputs\<close>

text \<open>
  The spec's sample of raw upstream output, \<open>line1\nline2\t\"quoted\"\<close> with the
  escapes spelled out as two characters each, here between a leading blank and a trailing
  backslash-n.
\<close>

definition raw_example :: jsstring where
  "raw_example =
     js '' line1'' @ [backslash, letter_n] @ js ''line2'' @ [backslash, letter_t]
     @ [backslash, dquote] @ js ''quoted'' @ [backslash, dquote] @ [backslash, letter_n]"

definition prompt_sort :: jsstring where
  "prompt_sort = js ''sort a list''"

definition prompt_Sort :: jsstring where
  "prompt_Sort = js ''Sort a list''"

text \<open>
  A request, the key it is cached under, and the circumstances of a handler run: an
  upstream that answers, a later run whose upstream would time out, a cache read or
  write that fails, an upstream answer that normalises to nothing, one without \<open>code\<close>,
  and upstream errors.
\<close>

definition req_sort :: request where
  "req_sort = \<lparr>prompt = Some (js ''sort a list''), language = Some (js ''Python''),
               model = Some (js ''gpt-4o'')\<rparr>"

definition key_sort :: jsstring where
  "key_sort = js ''codegen:gpt-4o:Python:c29ydCBhIGxpc3Q=''"

definition env_ok :: env where
  "env_ok = \<lparr>now = 100, elapsed = 2, get_error = None, set_error = None,
      upstream = Resolved (JObj [(js ''code'', JStr raw_example),
                                 (js ''explanation'', JStr (js ''two lines''))]),
      type_error_message = js ''TypeError''\<rparr>"

definition env_later :: env where
  "env_later = \<lparr>now = 3000, elapsed = 30, get_error = None, set_error = None,
      upstream = Rejected (js ''timeout of 30000ms exceeded'') None,
      type_error_message = js ''TypeError''\<rparr>"

definition cache_warm :: cache where
  "cache_warm = Map.empty(key_sort \<mapsto> (js ''xs.sort()'', 3702))"

definition req_other :: request where
  "req_other = \<lparr>prompt = Some (js ''Sort a list''), language = None, model = None\<rparr>"

definition env_between :: env where
  "env_between = env_ok\<lparr>now := 500\<rparr>"

definition cache_first :: cache where
  "cache_first = redis_setEx Map.empty 102 key_sort 3600 (cleanCode raw_example)"

definition env_get_fails :: env where
  "env_get_fails = env_ok\<lparr>get_error := Some (js ''Connection is closed.'')\<rparr>"

definition env_set_fails :: env where
  "env_set_fails = env_ok\<lparr>set_error := Some (js ''Connection is closed.'')\<rparr>"

definition env_blank :: env where
  "env_blank =
     env_ok\<lparr>upstream := Resolved (JObj [(js ''code'', JStr (js ''  '' @ [backslash, letter_n]))])\<rparr>"

definition env_no_code :: env where
  "env_no_code =
     env_ok\<lparr>upstream := Resolved (JObj [(js ''explanation'', JStr (js ''none''))])\<rparr>"

definition env_timeout :: env where
  "env_timeout = env_ok\<lparr>upstream := Rejected (js ''timeout of 30000ms exceeded'') None\<rparr>"

definition env_503 :: env where
  "env_503 = env_ok\<lparr>upstream := Rejected (js ''Request failed with status code 503'')
                 (Some \<lparr>status = 503, data_message = None\<rparr>)\<rparr>"

definition env_404 :: env where
  "env_404 = env_ok\<lparr>upstream := Rejected (js ''Request failed with status code 404'')
                 (Some \<lparr>status = 404, data_message = Some (js ''Not Found'')\<rparr>)\<rparr>"

definition req_empty_prompt :: request where
  "req_empty_prompt = \<lparr>prompt = Some [], language = None, model = None\<rparr>"

definition req_no_prompt :: request where
  "req_no_prompt = \<lparr>prompt = None, language = None, model = None\<rparr>"

definition req_constructor :: request where
  "req_constructor = \<lparr>prompt = Some (js ''sort a list''), language = None,
                      model = Some (js ''constructor'')\<rparr>"

definition req_haskell :: request where
  "req_haskell = \<lparr>prompt = Some (js ''sort a list''), language = Some (js ''Haskell''),
                  model = None\<rparr>"

section \<open>Properties of the normaliser\<close>

lemmas char_defs = backslash_def letter_n_def letter_t_def dquote_def newline_def tab_def

lemma replace_g_skip1: "x \<noteq> a \<Longrightarrow> replace_g a b r (x # w) = x # replace_g a b r w"
  by (cases w) auto

lemma replace_g_skip2:
  "w = [] \<or> hd w \<noteq> b \<Longrightarrow> replace_g a b r (x # w) = x # replace_g a b r w"
  by (cases w) auto

lemma hd_replace_g:
  "s \<noteq> [] \<Longrightarrow> hd (replace_g a b r s) = r \<or> hd (replace_g a b r s) = hd s"
  by (induction a b r s rule: replace_g.induct) auto

lemma replace_g_head:
  "replace_g a b r (y # zs) = r # replace_g a b r (tl zs) \<and> zs \<noteq> [] \<and> y = a \<and> hd zs = b
   \<or> replace_g a b r (y # zs) = y # replace_g a b r zs \<and> \<not> (zs \<noteq> [] \<and> y = a \<and> hd zs = b)"
  by (cases zs) auto

lemma has_pair_Cons:
  "has_pair a b (x # ys) = ((ys \<noteq> [] \<and> x = a \<and> hd ys = b) \<or> has_pair a b ys)"
  by (cases ys) auto

text \<open>One pass leaves no occurrence of its own pattern.\<close>

lemma replace_g_removes:
  "r \<noteq> a \<Longrightarrow> r \<noteq> b \<Longrightarrow> \<not> has_pair a b (replace_g a b r s)"
proof (induction a b r s rule: replace_g.induct)
  case (1 a b r x y zs)
  then show ?case
    using replace_g_head[of a b r y zs] by (auto simp: has_pair_Cons)
qed auto

text \<open>A pass does not create an occurrence of a pattern that its replacement is no part of.\<close>

lemma replace_g_keeps:
  "r \<noteq> c \<Longrightarrow> r \<noteq> d \<Longrightarrow> \<not> has_pair c d s \<Longrightarrow> \<not> has_pair c d (replace_g a b r s)"
proof (induction a b r s rule: replace_g.induct)
  case (1 a b r x y zs)
  then show ?case
    using replace_g_head[of a b r y zs] by (auto simp: has_pair_Cons)
qed auto

text \<open>
  The three passes in sequence replace exactly the occurrences of the input: no pass
  destroys or creates an occurrence for a later one.
\<close>

lemma unescape_sequential:
  "replace_g backslash dquote dquote
     (replace_g backslash letter_t tab (replace_g backslash letter_n newline s)) = spec_unescape s"
proof (induction s rule: spec_unescape.induct)
  case (1 x y zs)
  let ?P1 = "replace_g backslash letter_n newline"
  let ?P2 = "replace_g backslash letter_t tab"
  let ?P3 = "replace_g backslash dquote dquote"
  consider (n) "x = backslash" "y = letter_n"
    | (t) "x = backslash" "y = letter_t"
    | (q) "x = backslash" "y = dquote"
    | (other) "x \<noteq> backslash"
    | (lone) "x = backslash" "y \<noteq> letter_n" "y \<noteq> letter_t" "y \<noteq> dquote"
    by blast
  then show ?case
  proof cases
    case n
    have "?P3 (?P2 (?P1 (x # y # zs))) = ?P3 (?P2 (newline # ?P1 zs))"
      using n by simp
    also have "\<dots> = newline # ?P3 (?P2 (?P1 zs))"
      by (simp add: replace_g_skip1 char_defs)
    finally show ?thesis using n 1 by simp
  next
    case t
    have "?P1 (x # y # zs) = backslash # letter_t # ?P1 zs"
      using t by (simp add: replace_g_skip1 char_defs)
    then have "?P3 (?P2 (?P1 (x # y # zs))) = ?P3 (tab # ?P2 (?P1 zs))"
      by simp
    also have "\<dots> = tab # ?P3 (?P2 (?P1 zs))"
      by (simp add: replace_g_skip1 char_defs)
    finally show ?thesis using t 1 by (simp add: char_defs)
  next
    case q
    have "?P1 (x # y # zs) = backslash # dquote # ?P1 zs"
      using q by (simp add: replace_g_skip1 char_defs)
    then have "?P2 (?P1 (x # y # zs)) = backslash # dquote # ?P2 (?P1 zs)"
      by (simp add: replace_g_skip1 char_defs)
    then have "?P3 (?P2 (?P1 (x # y # zs))) = dquote # ?P3 (?P2 (?P1 zs))"
      by simp
    then show ?thesis using q 1 by (simp add: char_defs)
  next
    case other
    then have "?P3 (?P2 (?P1 (x # y # zs))) = x # ?P3 (?P2 (?P1 (y # zs)))"
      by (simp add: replace_g_skip1 del: replace_g.simps)
    then show ?thesis using other 1 by simp
  next
    case lone
    have h1: "hd (?P1 (y # zs)) = newline \<or> hd (?P1 (y # zs)) = y"
      using hd_replace_g[of "y # zs"] by simp
    have e1: "?P1 (x # y # zs) = x # ?P1 (y # zs)"
      using lone by (simp add: replace_g_skip2)
    have "hd (?P1 (y # zs)) \<noteq> letter_t"
      using h1 lone by (auto simp: char_defs)
    then have e2: "?P2 (x # ?P1 (y # zs)) = x # ?P2 (?P1 (y # zs))"
      by (simp add: replace_g_skip2)
    have ne: "?P1 (y # zs) \<noteq> []"
      by (cases zs) auto
    have "hd (?P2 (?P1 (y # zs))) = tab \<or> hd (?P2 (?P1 (y # zs))) = hd (?P1 (y # zs))"
      using hd_replace_g[OF ne] by simp
    then have "hd (?P2 (?P1 (y # zs))) \<noteq> dquote"
      using h1 lone by (auto simp: char_defs)
    then have e3: "?P3 (x # ?P2 (?P1 (y # zs))) = x # ?P3 (?P2 (?P1 (y # zs)))"
      by (simp add: replace_g_skip2)
    show ?thesis using lone 1 e1 e2 e3 by simp
  qed
qed auto

lemma trim_suffix:
  "dropWhile is_space s = trim s @ rev (takeWhile is_space (rev (dropWhile is_space s)))"
proof -
  let ?t = "dropWhile is_space s"
  have "rev (takeWhile is_space (rev ?t) @ dropWhile is_space (rev ?t)) = ?t"
    by (simp only: takeWhile_dropWhile_id rev_rev_ident)
  then have "rev (dropWhile is_space (rev ?t)) @ rev (takeWhile is_space (rev ?t)) = ?t"
    by (simp only: rev_append)
  then show ?thesis by (simp add: trim_def)
qed

text \<open>\<open>trim\<close> cuts white space, and only white space, from the two ends.\<close>

lemma trim_decomp:
  "\<exists>pre post. s = pre @ trim s @ post \<and> list_all is_space pre \<and> list_all is_space post"
proof -
  let ?t = "dropWhile is_space s"
  have "s = takeWhile is_space s @ ?t" by simp
  then have "s = takeWhile is_space s @ trim s @ rev (takeWhile is_space (rev ?t))"
    using trim_suffix[of s] by simp
  moreover have "list_all is_space (takeWhile is_space s)"
    by (simp add: list_all_iff) (meson set_takeWhileD)
  moreover have "list_all is_space (rev (takeWhile is_space (rev ?t)))"
    by (simp add: list_all_iff) (meson set_takeWhileD)
  ultimately show ?thesis by blast
qed

lemma trim_ends:
  "trim s = [] \<or> (\<not> is_space (hd (trim s)) \<and> \<not> is_space (last (trim s)))"
proof (cases "trim s = []")
  case True then show ?thesis by simp
next
  case False
  let ?t = "dropWhile is_space s"
  let ?u = "dropWhile is_space (rev ?t)"
  have u: "?u \<noteq> []" using False by (simp add: trim_def)
  have "last (trim s) = hd ?u" using u by (simp add: trim_def last_rev)
  then have l: "\<not> is_space (last (trim s))" using u hd_dropWhile[of is_space "rev ?t"] by simp
  have t: "?t \<noteq> []" using u by (metis dropWhile.simps(1) rev.simps(1))
  have "hd (trim s) = hd ?t" using False trim_suffix[of s] by (metis hd_append2)
  then have "\<not> is_space (hd (trim s))" using t hd_dropWhile[of is_space s] by simp
  then show ?thesis using l by simp
qed

lemma has_pair_append_left: "has_pair a b ys \<Longrightarrow> has_pair a b (xs @ ys)"
  by (induction xs) (simp_all add: has_pair_Cons)

lemma has_pair_append_right: "has_pair a b xs \<Longrightarrow> has_pair a b (xs @ ys)"
  by (induction xs) (auto simp add: has_pair_Cons)

lemma trim_keeps_no_pair: "\<not> has_pair a b s \<Longrightarrow> \<not> has_pair a b (trim s)"
proof -
  obtain pre post where "s = pre @ trim s @ post" using trim_decomp by blast
  then show "\<not> has_pair a b s \<Longrightarrow> \<not> has_pair a b (trim s)"
    by (metis has_pair_append_left has_pair_append_right)
qed

lemma cleanCode_unescape: "cleanCode raw = trim (spec_unescape raw)"
  by (simp add: cleanCode_def unescape_sequential)

lemma unescape_no_marker:
  "\<not> has_pair backslash letter_n (spec_unescape s)"
  "\<not> has_pair backslash letter_t (spec_unescape s)"
proof -
  let ?s1 = "replace_g backslash letter_n newline s"
  let ?s2 = "replace_g backslash letter_t tab ?s1"
  let ?s3 = "replace_g backslash dquote dquote ?s2"
  have n1: "\<not> has_pair backslash letter_n ?s1"
    by (rule replace_g_removes) (simp_all add: char_defs)
  have n2: "\<not> has_pair backslash letter_n ?s2"
    by (rule replace_g_keeps[OF _ _ n1]) (simp_all add: char_defs)
  have t2: "\<not> has_pair backslash letter_t ?s2"
    by (rule replace_g_removes) (simp_all add: char_defs)
  have "\<not> has_pair backslash letter_n ?s3"
    by (rule replace_g_keeps[OF _ _ n2]) (simp_all add: char_defs)
  moreover have "\<not> has_pair backslash letter_t ?s3"
    by (rule replace_g_keeps[OF _ _ t2]) (simp_all add: char_defs)
  ultimately show
    "\<not> has_pair backslash letter_n (spec_unescape s)"
    "\<not> has_pair backslash letter_t (spec_unescape s)"
    by (simp_all add: unescape_sequential)
qed

lemma cleanCode_raw_example:
  "cleanCode raw_example =
     js ''line1'' @ [newline] @ js ''line2'' @ [tab, dquote] @ js ''quoted'' @ [dquote]"
  by (simp add: cleanCode_def raw_example_def trim_def is_space_def white_space_def js_def
      char_defs)

text \<open>
  C6, as the code has it. For every input string, \<open>cleanCode\<close> (the three replacements
  in the order backslash-n, backslash-t, backslash-quote, then \<open>trim\<close>) returns the input
  with every backslash-n replaced by a newline, every backslash-t by a tab and every
  backslash-quote by a quote (\<open>spec_unescape\<close>), cut at both ends by white space only, so that
  the result neither starts nor ends with white space; and the result contains no
  backslash-n and no backslash-t. Nothing is said of backslash-quote in the result.
\<close>

theorem cleanCode_normalizes:
  "cleanCode raw = trim (spec_unescape raw)
   \<and> (\<exists>pre post. spec_unescape raw = pre @ cleanCode raw @ post
          \<and> list_all is_space pre \<and> list_all is_space post)
   \<and> (cleanCode raw = []
        \<or> (\<not> is_space (hd (cleanCode raw)) \<and> \<not> is_space (last (cleanCode raw))))
   \<and> \<not> has_pair backslash letter_n (cleanCode raw)
   \<and> \<not> has_pair backslash letter_t (cleanCode raw)"
proof -
  have "\<exists>pre post. spec_unescape raw = pre @ cleanCode raw @ post
          \<and> list_all is_space pre \<and> list_all is_space post"
    using trim_decomp[of "spec_unescape raw"] by (simp add: cleanCode_unescape)
  moreover have "cleanCode raw = []
        \<or> (\<not> is_space (hd (cleanCode raw)) \<and> \<not> is_space (last (cleanCode raw)))"
    using trim_ends[of "spec_unescape raw"] by (simp add: cleanCode_unescape)
  moreover have "\<not> has_pair backslash letter_n (cleanCode raw)"
    "\<not> has_pair backslash letter_t (cleanCode raw)"
    by (simp_all add: cleanCode_unescape trim_keeps_no_pair unescape_no_marker)
  ultimately show ?thesis
    by (simp add: cleanCode_unescape)
qed

theorem cleanCode_normalizes_witness:
  "cleanCode raw_example =
     js ''line1'' @ [newline] @ js ''line2'' @ [tab, dquote] @ js ''quoted'' @ [dquote]
   \<and> cleanCode raw_example \<noteq> []
   \<and> \<not> is_space (hd (cleanCode raw_example))
   \<and> \<not> is_space (last (cleanCode raw_example))
   \<and> \<not> has_pair backslash letter_n (cleanCode raw_example)
   \<and> \<not> has_pair backslash letter_t (cleanCode raw_example)"
proof -
  have ne: "cleanCode raw_example \<noteq> []"
    by (simp add: cleanCode_raw_example js_def)
  show ?thesis
    using cleanCode_normalizes[of raw_example] ne cleanCode_raw_example by blast
qed

text \<open>
  C6 as stated fails: of backslash, backslash, quote the third replacement leaves
  backslash, quote, an escape marker in the result.
\<close>

theorem cleanCode_residual_counterexample:
  "cleanCode [backslash, backslash, dquote] = [backslash, dquote]
   \<and> has_pair backslash dquote (cleanCode [backslash, backslash, dquote])"
  by (simp add: cleanCode_def trim_def is_space_def white_space_def char_defs)

section \<open>Properties of the key codec\<close>

lemma distinct_base64_alphabet: "distinct base64_alphabet"
  by (simp add: base64_alphabet_def)

lemma length_base64_alphabet: "length base64_alphabet = 64"
  by (simp add: base64_alphabet_def)

lemma sextet_eq_iff: "m < 64 \<Longrightarrow> n < 64 \<Longrightarrow> sextet m = sextet n \<longleftrightarrow> m = n"
  by (simp add: sextet_def nth_eq_iff_index_eq distinct_base64_alphabet length_base64_alphabet)

lemma sextet_not_pad: "n < 64 \<Longrightarrow> sextet n \<noteq> CHR ''=''"
proof -
  assume "n < 64"
  then have "sextet n \<in> set base64_alphabet"
    by (simp add: sextet_def length_base64_alphabet)
  moreover have "CHR ''='' \<notin> set base64_alphabet"
    by (simp add: base64_alphabet_def)
  ultimately show ?thesis by auto
qed

lemma hi_lo_eq:
  fixes p q p' q' :: nat
  assumes "q < k" "q' < k" "p * k + q = p' * k + q'"
  shows "p = p' \<and> q = q'"
proof -
  have "(p * k + q) div k = p" "(p' * k + q') div k = p'"
    using assms(1,2) by simp_all
  then have "p = p'" using assms(3) by simp
  then show ?thesis using assms(3) by simp
qed

lemma divmod_eq:
  fixes a a' :: nat
  assumes "a div k = a' div k" "a mod k = a' mod k"
  shows "a = a'"
  by (metis assms div_mult_mod_eq)

lemma sextets3_inj:
  fixes a b c a' b' c' :: nat
  assumes "b < 256" "b' < 256" "c < 256" "c' < 256"
    and "a div 4 = a' div 4"
    and "(a mod 4) * 16 + b div 16 = (a' mod 4) * 16 + b' div 16"
    and "(b mod 16) * 4 + c div 64 = (b' mod 16) * 4 + c' div 64"
    and "c mod 64 = c' mod 64"
  shows "a = a' \<and> b = b' \<and> c = c'"
proof -
  have "b div 16 < 16" "b' div 16 < 16" "c div 64 < 4" "c' div 64 < 4"
    using assms(1-4) by auto
  then have "a mod 4 = a' mod 4 \<and> b div 16 = b' div 16" "b mod 16 = b' mod 16 \<and> c div 64 = c' div 64"
    using assms(6,7) hi_lo_eq by blast+
  then show ?thesis
    using assms(5,8) divmod_eq by blast
qed

lemma idx_bounds:
  fixes a b :: nat
  assumes "a < 256" "b < 256"
  shows "a div 4 < 64" "(a mod 4) * 16 + b div 16 < 64" "(a mod 4) * 16 < 64"
        "(a mod 16) * 4 + b div 64 < 64" "(a mod 16) * 4 < 64" "a mod 64 < 64"
  using assms by auto

lemma quad_eq:
  assumes "[sextet (of_char a div 4), sextet ((of_char a mod 4) * 16 + of_char b div 16),
            sextet ((of_char b mod 16) * 4 + of_char c div 64), sextet (of_char c mod 64)]
         = [sextet (of_char a' div 4), sextet ((of_char a' mod 4) * 16 + of_char b' div 16),
            sextet ((of_char b' mod 16) * 4 + of_char c' div 64), sextet (of_char c' mod 64)]"
  shows "a = a' \<and> b = b' \<and> c = c'"
proof -
  let ?a = "of_char a :: nat" and ?b = "of_char b :: nat" and ?c = "of_char c :: nat"
  let ?a' = "of_char a' :: nat" and ?b' = "of_char b' :: nat" and ?c' = "of_char c' :: nat"
  have lt: "?a < 256" "?b < 256" "?c < 256" "?a' < 256" "?b' < 256" "?c' < 256"
    by simp_all
  have "?a div 4 = ?a' div 4"
    using assms idx_bounds(1)[OF lt(1) lt(2)] idx_bounds(1)[OF lt(4) lt(5)]
    by (simp add: sextet_eq_iff)
  moreover have "(?a mod 4) * 16 + ?b div 16 = (?a' mod 4) * 16 + ?b' div 16"
    using assms idx_bounds(2)[OF lt(1) lt(2)] idx_bounds(2)[OF lt(4) lt(5)]
    by (simp add: sextet_eq_iff)
  moreover have "(?b mod 16) * 4 + ?c div 64 = (?b' mod 16) * 4 + ?c' div 64"
    using assms idx_bounds(4)[OF lt(2) lt(3)] idx_bounds(4)[OF lt(5) lt(6)]
    by (simp add: sextet_eq_iff)
  moreover have "?c mod 64 = ?c' mod 64"
    using assms by (simp add: sextet_eq_iff)
  ultimately have "?a = ?a' \<and> ?b = ?b' \<and> ?c = ?c'"
    using sextets3_inj[OF lt(2) lt(5) lt(3) lt(6)] by blast
  then show ?thesis by simp
qed


lemma sextet_pad_neq [simp]:
  "sextet (of_char a div 4) \<noteq> CHR ''=''"
  "sextet ((of_char a mod 4) * 16 + of_char b div 16) \<noteq> CHR ''=''"
  "sextet ((of_char a mod 4) * 16) \<noteq> CHR ''=''"
  "sextet ((of_char a mod 16) * 4 + of_char b div 64) \<noteq> CHR ''=''"
  "sextet ((of_char a mod 16) * 4) \<noteq> CHR ''=''"
  "sextet (of_char a mod 64) \<noteq> CHR ''=''"
  "CHR ''='' \<noteq> sextet (of_char a div 4)"
  "CHR ''='' \<noteq> sextet ((of_char a mod 4) * 16 + of_char b div 16)"
  "CHR ''='' \<noteq> sextet ((of_char a mod 4) * 16)"
  "CHR ''='' \<noteq> sextet ((of_char a mod 16) * 4 + of_char b div 64)"
  "CHR ''='' \<noteq> sextet ((of_char a mod 16) * 4)"
  "CHR ''='' \<noteq> sextet (of_char a mod 64)"
  using idx_bounds[of "of_char a" "of_char b"]
  by (simp_all add: sextet_not_pad sextet_not_pad[symmetric])

lemma pair_eq:
  assumes "sextet (of_char a div 4) = sextet (of_char a' div 4)"
    and "sextet ((of_char a mod 4) * 16 + of_char b div 16) = sextet ((of_char a' mod 4) * 16 + of_char b' div 16)"
    and "sextet ((of_char b mod 16) * 4) = sextet ((of_char b' mod 16) * 4)"
  shows "a = a' \<and> b = b'"
proof -
  let ?a = "of_char a :: nat" and ?b = "of_char b :: nat"
  let ?a' = "of_char a' :: nat" and ?b' = "of_char b' :: nat"
  have lt: "?a < 256" "?b < 256" "?a' < 256" "?b' < 256"
    by simp_all
  have "?a div 4 = ?a' div 4"
    using assms(1) idx_bounds(1)[OF lt(1) lt(2)] idx_bounds(1)[OF lt(3) lt(4)]
    by (simp add: sextet_eq_iff)
  moreover have "(?a mod 4) * 16 + ?b div 16 = (?a' mod 4) * 16 + ?b' div 16"
    using assms(2) idx_bounds(2)[OF lt(1) lt(2)] idx_bounds(2)[OF lt(3) lt(4)]
    by (simp add: sextet_eq_iff)
  moreover have "(?b mod 16) * 4 + (0::nat) div 64 = (?b' mod 16) * 4 + (0::nat) div 64"
    using assms(3) idx_bounds(5)[OF lt(2) lt(2)] idx_bounds(5)[OF lt(4) lt(4)]
    by (simp add: sextet_eq_iff)
  ultimately have "?a = ?a' \<and> ?b = ?b' \<and> (0::nat) = 0"
    using sextets3_inj[OF lt(2) lt(4), of 0 0 ?a ?a'] by simp
  then show ?thesis by simp
qed

lemma single_eq:
  assumes "sextet (of_char a div 4) = sextet (of_char a' div 4)"
    and "sextet ((of_char a mod 4) * 16) = sextet ((of_char a' mod 4) * 16)"
  shows "a = a'"
proof -
  let ?a = "of_char a :: nat" and ?a' = "of_char a' :: nat"
  have lt: "?a < 256" "?a' < 256"
    by simp_all
  have "?a div 4 = ?a' div 4"
    using assms(1) idx_bounds(1)[OF lt(1) lt(1)] idx_bounds(1)[OF lt(2) lt(2)]
    by (simp add: sextet_eq_iff)
  moreover have "?a mod 4 = ?a' mod 4"
    using assms(2) idx_bounds(3)[OF lt(1) lt(1)] idx_bounds(3)[OF lt(2) lt(2)]
    by (simp add: sextet_eq_iff)
  ultimately have "?a = ?a'"
    by (rule divmod_eq)
  then show ?thesis by simp
qed

lemma base64_inj: "base64 xs = base64 ys \<Longrightarrow> xs = ys"
proof (induction xs arbitrary: ys rule: base64.induct)
  case (1 a b c rest)
  show ?case
  proof (cases ys rule: base64.cases)
    case (1 a' b' c' rest')
    then show ?thesis using "1.prems" "1.IH"[of rest'] quad_eq[of a b c a' b' c']
      by simp
  next
    case (2 a' b')
    then show ?thesis using "1.prems" by simp
  next
    case (3 a')
    then show ?thesis using "1.prems" by simp
  next
    case 4
    then show ?thesis using "1.prems" by simp
  qed
next
  case (2 a b)
  show ?case
  proof (cases ys rule: base64.cases)
    case (1 a' b' c' rest')
    then show ?thesis using "2.prems" by simp
  next
    case (2 a' b')
    then show ?thesis using "2.prems" pair_eq[of a a' b b'] by simp
  next
    case (3 a')
    then show ?thesis using "2.prems" by simp
  next
    case 4
    then show ?thesis using "2.prems" by simp
  qed
next
  case (3 a)
  show ?case
  proof (cases ys rule: base64.cases)
    case (1 a' b' c' rest')
    then show ?thesis using "3.prems" by simp
  next
    case (2 a' b')
    then show ?thesis using "3.prems" by simp
  next
    case (3 a')
    then show ?thesis using "3.prems" single_eq[of a a'] by simp
  next
    case 4
    then show ?thesis using "3.prems" by simp
  qed
next
  case 4
  then show ?case by (cases ys rule: base64.cases) auto
qed
lemma unat_of_char: "unat (of_char c :: jschar) = of_char c"
proof -
  have "(of_char c :: jschar) = of_nat (of_char c)"
    by (simp add: of_nat_of_char)
  then have "unat (of_char c :: jschar) = (of_char c :: nat) mod 2 ^ 16"
    by (simp add: unat_of_nat)
  moreover have "(of_char c :: nat) < 2 ^ 16"
  proof -
    have "(of_char c :: nat) < 256" by (rule nat_of_char_less_256)
    also have "(256 :: nat) < 2 ^ 16" by simp
    finally show ?thesis .
  qed
  ultimately show ?thesis by simp
qed

lemma js_inj: "js s = js t \<Longrightarrow> s = t"
proof -
  have "inj (of_char :: char \<Rightarrow> jschar)"
  proof (rule injI)
    fix c d :: char
    assume "(of_char c :: jschar) = of_char d"
    then have "unat (of_char c :: jschar) = unat (of_char d :: jschar)" by simp
    then show "c = d" by (simp add: unat_of_char)
  qed
  then show "js s = js t \<Longrightarrow> s = t"
    by (simp add: js_def)
qed

lemma split_at_first:
  "x \<notin> set a \<Longrightarrow> x \<notin> set a' \<Longrightarrow> a @ x # r = a' @ x # r' \<Longrightarrow> a = a' \<and> r = r'"
proof (induction a arbitrary: a')
  case Nil
  then show ?case by (cases a') auto
next
  case (Cons y a)
  then show ?case by (cases a') auto
qed

lemma model_no_colon: "m \<in> set (map fst CONFIG_models) \<Longrightarrow> 0x3A \<notin> set m"
  by (auto simp: CONFIG_models_def js_def)

lemma language_no_colon: "l \<in> set CONFIG_languages \<Longrightarrow> 0x3A \<notin> set l"
  by (auto simp: CONFIG_languages_def js_def)

lemma cacheKey_eq_iff:
  assumes "0x3A \<notin> set m" "0x3A \<notin> set m'" "0x3A \<notin> set l" "0x3A \<notin> set l'"
  shows "cacheKey m l p = cacheKey m' l' p' \<longleftrightarrow> m = m' \<and> l = l' \<and> base64 (utf8 p) = base64 (utf8 p')"
proof
  assume eq: "cacheKey m l p = cacheKey m' l' p'"
  then have "m @ 0x3A # (l @ 0x3A # js (base64 (utf8 p))) = m' @ 0x3A # (l' @ 0x3A # js (base64 (utf8 p')))"
    by (simp add: cacheKey_def js_def)
  then have m: "m = m'" and "l @ 0x3A # js (base64 (utf8 p)) = l' @ 0x3A # js (base64 (utf8 p'))"
    using split_at_first[OF assms(1,2)] by blast+
  then have "l = l'" and "js (base64 (utf8 p)) = js (base64 (utf8 p'))"
    using split_at_first[OF assms(3,4)] by blast+
  then show "m = m' \<and> l = l' \<and> base64 (utf8 p) = base64 (utf8 p')"
    using m js_inj by blast
next
  assume "m = m' \<and> l = l' \<and> base64 (utf8 p) = base64 (utf8 p')"
  then show "cacheKey m l p = cacheKey m' l' p'"
    by (simp add: cacheKey_def)
qed

lemma utf8_tokens: "utf8 s = concat (map encode_token (tokens s))"
  by (induction s rule: utf8.induct) auto

lemma tokens_units: "concat (map token_units (tokens s)) = s"
  by (induction s rule: tokens.induct) auto

lemma tokens_inj: "tokens s = tokens t \<Longrightarrow> s = t"
  by (metis tokens_units)

lemma unat_jschar_bound: "unat (u :: jschar) < 65536"
  using unsigned_less[of u, where 'a = nat] by simp

lemma encode_token_bytes:
  "valid_token t \<Longrightarrow> encode_token t = map char_of (token_bytes t)"
  by (cases t) (auto simp: valid_token_def utf8_unit_def utf8_pair_def unit_bytes_def pair_bytes_def
      code_point_def Let_def high_surrogate_def low_surrogate_def)

lemma unit_bytes_facts:
  assumes "n < 65536"
  shows "\<forall>b \<in> set (unit_bytes n). b < 256"
    and "unit_bytes n \<noteq> []"
    and "length (unit_bytes n) = lead_len (hd (unit_bytes n))"
  using assms by (auto simp: unit_bytes_def lead_len_def)

lemma code_point_bound:
  assumes "high_surrogate u" "low_surrogate v"
  shows "65536 \<le> code_point u v" "code_point u v < 1114112"
  using assms by (auto simp: code_point_def high_surrogate_def low_surrogate_def)

lemma pair_bytes_facts:
  assumes "65536 \<le> cp" "cp < 1114112"
  shows "\<forall>b \<in> set (pair_bytes cp). b < 256"
    and "pair_bytes cp \<noteq> []"
    and "length (pair_bytes cp) = lead_len (hd (pair_bytes cp))"
  using assms by (auto simp: pair_bytes_def lead_len_def)

lemma token_bytes_facts:
  assumes "valid_token t"
  shows "\<forall>b \<in> set (token_bytes t). b < 256"
    and "token_bytes t \<noteq> []"
    and "length (token_bytes t) = lead_len (hd (token_bytes t))"
proof -
  show "\<forall>b \<in> set (token_bytes t). b < 256"
  proof (cases t)
    case (Unit u)
    then show ?thesis using unit_bytes_facts(1)[OF unat_jschar_bound[of u]] by simp
  next
    case (Pair u v)
    then show ?thesis
      using assms pair_bytes_facts(1)[OF code_point_bound[of u v]]
      by (simp add: valid_token_def)
  qed
  show "token_bytes t \<noteq> []"
    by (cases t) (simp_all add: unit_bytes_def pair_bytes_def)
  show "length (token_bytes t) = lead_len (hd (token_bytes t))"
  proof (cases t)
    case (Unit u)
    then show ?thesis using unit_bytes_facts(3)[OF unat_jschar_bound[of u]] by simp
  next
    case (Pair u v)
    then show ?thesis
      using assms pair_bytes_facts(3)[OF code_point_bound[of u v]]
      by (simp add: valid_token_def)
  qed
qed

lemma map_char_of_inj:
  assumes "\<forall>b \<in> set xs. b < (256::nat)" "\<forall>b \<in> set ys. b < (256::nat)"
    and "map char_of xs = map char_of ys"
  shows "xs = ys"
proof -
  have "inj_on (char_of :: nat \<Rightarrow> char) (set xs \<union> set ys)"
    using assms(1,2) by (intro inj_on_subset[OF inj_on_char_of_nat]) auto
  then show ?thesis
    using assms(3) by (simp add: inj_on_map_eq_map)
qed

lemma unit_bytes_inj:
  assumes "unit_bytes n = unit_bytes n'"
  shows "n = n'"
proof -
  have len: "\<And>k. length (unit_bytes k) = (if k < 128 then 1 else if k < 2048 then 2 else 3)"
    by (simp add: unit_bytes_def)
  have "length (unit_bytes n) = length (unit_bytes n')"
    using assms by simp
  then consider (one) "n < 128" "n' < 128"
    | (two) "128 \<le> n" "n < 2048" "128 \<le> n'" "n' < 2048"
    | (three) "2048 \<le> n" "2048 \<le> n'"
    unfolding len by (cases "n < 128"; cases "n < 2048"; cases "n' < 128"; cases "n' < 2048") auto
  then show ?thesis
  proof cases
    case one
    then show ?thesis using assms by (simp add: unit_bytes_def)
  next
    case two
    then have "n div 64 = n' div 64" "n mod 64 = n' mod 64"
      using assms by (simp_all add: unit_bytes_def)
    then show ?thesis by (rule divmod_eq)
  next
    case three
    then have a: "n div 4096 = n' div 4096" "(n div 64) mod 64 = (n' div 64) mod 64"
      and b: "n mod 64 = n' mod 64"
      using assms by (simp_all add: unit_bytes_def)
    have "(n div 64) div 64 = (n' div 64) div 64"
      using a(1) by (simp add: div_mult2_eq[symmetric])
    then have "n div 64 = n' div 64"
      using a(2) by (rule divmod_eq)
    then show ?thesis using b by (rule divmod_eq)
  qed
qed

lemma pair_bytes_inj:
  assumes "pair_bytes cp = pair_bytes cp'"
  shows "cp = cp'"
proof -
  have a: "cp div 262144 = cp' div 262144" "(cp div 4096) mod 64 = (cp' div 4096) mod 64"
    "(cp div 64) mod 64 = (cp' div 64) mod 64" "cp mod 64 = cp' mod 64"
    using assms by (simp_all add: pair_bytes_def)
  have "(cp div 4096) div 64 = (cp' div 4096) div 64"
    using a(1) by (simp add: div_mult2_eq[symmetric])
  then have "cp div 4096 = cp' div 4096"
    using a(2) by (rule divmod_eq)
  then have "(cp div 64) div 64 = (cp' div 64) div 64"
    by (simp add: div_mult2_eq[symmetric])
  then have "cp div 64 = cp' div 64"
    using a(3) by (rule divmod_eq)
  then show ?thesis using a(4) by (rule divmod_eq)
qed

lemma code_point_inj:
  assumes "high_surrogate u" "low_surrogate v" "high_surrogate u'" "low_surrogate v'"
    and "code_point u v = code_point u' v'"
  shows "u = u' \<and> v = v'"
proof -
  have "(unat u - 0xD800) * 1024 + (unat v - 0xDC00) = (unat u' - 0xD800) * 1024 + (unat v' - 0xDC00)"
    using assms(5) by (simp add: code_point_def)
  moreover have "unat v - 0xDC00 < 1024" "unat v' - 0xDC00 < 1024"
    using assms(2,4) by (auto simp: low_surrogate_def)
  ultimately have "unat u - 0xD800 = unat u' - 0xD800 \<and> unat v - 0xDC00 = unat v' - 0xDC00"
    by (rule hi_lo_eq[rotated 2])
  then have "unat u = unat u'" "unat v = unat v'"
    using assms(1-4) by (auto simp: high_surrogate_def low_surrogate_def)
  then show ?thesis by (simp add: word_unat_eq_iff)
qed

lemma token_bytes_inj:
  assumes "valid_token t" "valid_token t'" "token_bytes t = token_bytes t'"
  shows "t = t'"
proof (cases t; cases t')
  fix u u' assume "t = Unit u" "t' = Unit u'"
  then show ?thesis
    using assms(3) unit_bytes_inj[of "unat u" "unat u'"] by (simp add: word_unat_eq_iff)
next
  fix u v u' v' assume "t = Pair u v" "t' = Pair u' v'"
  then show ?thesis
    using assms pair_bytes_inj[of "code_point u v" "code_point u' v'"] code_point_inj[of u v u' v']
    by (simp add: valid_token_def)
next
  fix u u' v' assume "t = Unit u" "t' = Pair u' v'"
  then show ?thesis
    using assms(3) by (simp add: unit_bytes_def pair_bytes_def split: if_splits)
next
  fix u v u' assume "t = Pair u v" "t' = Unit u'"
  then show ?thesis
    using assms(3) by (simp add: unit_bytes_def pair_bytes_def split: if_splits)
qed

lemma encode_token_prefix_free:
  assumes "valid_token t" "valid_token t'" "encode_token t @ r = encode_token t' @ r'"
  shows "t = t' \<and> r = r'"
proof -
  let ?bs = "token_bytes t" and ?bs' = "token_bytes t'"
  have eq: "map char_of ?bs @ r = map char_of ?bs' @ r'"
    using assms by (simp add: encode_token_bytes)
  have ne: "?bs \<noteq> []" "?bs' \<noteq> []"
    using assms(1,2) token_bytes_facts(2) by blast+
  then have "char_of (hd ?bs) = char_of (hd ?bs')"
    using eq by (cases ?bs; cases ?bs') auto
  moreover have "hd ?bs < 256" "hd ?bs' < 256"
    using ne assms(1,2) token_bytes_facts(1) by (meson hd_in_set)+
  ultimately have "hd ?bs = hd ?bs'"
    by simp
  then have "length ?bs = length ?bs'"
    using assms(1,2) token_bytes_facts(3) by simp
  then have "map char_of ?bs = map char_of ?bs'" and r: "r = r'"
    using eq by simp_all
  then have "?bs = ?bs'"
    using assms(1,2) token_bytes_facts(1) map_char_of_inj by blast
  then show ?thesis
    using assms(1,2) r token_bytes_inj by blast
qed

lemma tokens_valid_or_lone:
  "t \<in> set (tokens s) \<Longrightarrow> valid_token t \<or> lone_surrogate t"
  by (induction s rule: tokens.induct) (auto simp: valid_token_def split: if_splits)

lemma well_formed_tokens: "well_formed s \<Longrightarrow> \<forall>t \<in> set (tokens s). valid_token t"
  using tokens_valid_or_lone by (auto simp: well_formed_def list_ex_iff)

lemma encode_tokens_inj:
  assumes "\<forall>t \<in> set ts. valid_token t" "\<forall>t \<in> set ts'. valid_token t"
    and "concat (map encode_token ts) = concat (map encode_token ts')"
  shows "ts = ts'"
  using assms
proof (induction ts arbitrary: ts')
  case Nil
  show ?case
  proof (cases ts')
    case (Cons t' rest')
    then have "encode_token t' = []" using Nil by simp
    moreover have "valid_token t'" using Nil Cons by simp
    ultimately show ?thesis
      using token_bytes_facts(2)[of t'] by (simp add: encode_token_bytes)
  qed simp
next
  case (Cons t rest)
  show ?case
  proof (cases ts')
    case Nil
    then have "encode_token t = []" using Cons.prems by simp
    moreover have "valid_token t" using Cons.prems by simp
    ultimately show ?thesis
      using token_bytes_facts(2)[of t] by (simp add: encode_token_bytes)
  next
    case (Cons t' rest')
    have "encode_token t @ concat (map encode_token rest)
            = encode_token t' @ concat (map encode_token rest')"
      using Cons.prems(3) Cons by simp
    moreover have "valid_token t" "valid_token t'"
      using Cons.prems(1,2) Cons by simp_all
    ultimately have "t = t'" "concat (map encode_token rest) = concat (map encode_token rest')"
      using encode_token_prefix_free by blast+
    then show ?thesis
      using Cons.IH[of rest'] Cons.prems(1,2) Cons by simp
  qed
qed

lemma utf8_inj_well_formed:
  assumes "well_formed s" "well_formed t" "utf8 s = utf8 t"
  shows "s = t"
proof -
  have "tokens s = tokens t"
    using assms well_formed_tokens encode_tokens_inj by (simp add: utf8_tokens)
  then show ?thesis by (rule tokens_inj)
qed

text \<open>
  Two surrogates that stand alone are both encoded as U+FFFD: strings that are not well
  formed can share their bytes.
\<close>

lemma lone_surrogates_share_bytes:
  "\<not> well_formed [0xD800]" "\<not> well_formed [0xD801]" "utf8 [0xD800] = utf8 [0xD801]"
  by (simp_all add: well_formed_def high_surrogate_def utf8_unit_def)

lemmas key_eval = cacheKey_def js_def utf8_unit_def utf8_pair_def high_surrogate_def
  low_surrogate_def sextet_def base64_alphabet_def

text \<open>
  C5, as the code has it. The key is a function of the triple, and on supported models
  and languages two keys are equal exactly when the models are equal, the languages are
  equal and the prompts have the same UTF-8 bytes (the bytes that \<open>Buffer.from\<close>
  produces). So changing the model, the language or any byte of the prompt's UTF-8
  encoding changes the key. For prompts in which no surrogate stands alone the bytes are
  equal only when the prompts are, so on those the key is injective on the triples.
\<close>

theorem cacheKey_injective:
  assumes "m \<in> set (map fst CONFIG_models)" and "m' \<in> set (map fst CONFIG_models)"
    and "l \<in> set CONFIG_languages" and "l' \<in> set CONFIG_languages"
  shows "(cacheKey m l p = cacheKey m' l' p' \<longleftrightarrow> m = m' \<and> l = l' \<and> utf8 p = utf8 p')
       \<and> (well_formed p \<and> well_formed p' \<longrightarrow>
            (cacheKey m l p = cacheKey m' l' p' \<longleftrightarrow> m = m' \<and> l = l' \<and> p = p'))"
proof -
  have "cacheKey m l p = cacheKey m' l' p'
          \<longleftrightarrow> m = m' \<and> l = l' \<and> base64 (utf8 p) = base64 (utf8 p')"
    using assms by (intro cacheKey_eq_iff model_no_colon language_no_colon)
  moreover have "base64 (utf8 p) = base64 (utf8 p') \<longleftrightarrow> utf8 p = utf8 p'"
    using base64_inj by auto
  ultimately have bytes:
    "cacheKey m l p = cacheKey m' l' p' \<longleftrightarrow> m = m' \<and> l = l' \<and> utf8 p = utf8 p'"
    by simp
  moreover have "utf8 p = utf8 p' \<longleftrightarrow> p = p'" if "well_formed p" "well_formed p'"
    using that utf8_inj_well_formed by auto
  ultimately show ?thesis by blast
qed

theorem cacheKey_injective_witness:
  "js ''gpt-4o'' \<in> set (map fst CONFIG_models)
   \<and> js ''Python'' \<in> set CONFIG_languages
   \<and> well_formed prompt_sort \<and> well_formed prompt_Sort
   \<and> utf8 prompt_sort \<noteq> utf8 prompt_Sort
   \<and> cacheKey (js ''gpt-4o'') (js ''Python'') prompt_sort
       \<noteq> cacheKey (js ''gpt-4o'') (js ''Python'') prompt_Sort
   \<and> cacheKey (js ''gpt-4o'') (js ''Python'') prompt_sort
       = cacheKey (js ''gpt-4o'') (js ''Python'') prompt_sort"
proof -
  have m: "js ''gpt-4o'' \<in> set (map fst CONFIG_models)"
    by (simp add: CONFIG_models_def js_def)
  have l: "js ''Python'' \<in> set CONFIG_languages"
    by (simp add: CONFIG_languages_def js_def)
  have p: "utf8 prompt_sort \<noteq> utf8 prompt_Sort"
    by (simp add: prompt_sort_def prompt_Sort_def js_def utf8_unit_def high_surrogate_def)
  have w: "well_formed prompt_sort" "well_formed prompt_Sort"
    by (simp_all add: well_formed_def prompt_sort_def prompt_Sort_def js_def
        high_surrogate_def low_surrogate_def)
  have d: "prompt_sort \<noteq> prompt_Sort"
    by (simp add: prompt_sort_def prompt_Sort_def js_def)
  show ?thesis
    using cacheKey_injective[OF m m l l, of prompt_sort prompt_Sort] m l p w d by simp
qed

text \<open>
  C5 as stated fails: the prompts that consist of the lone surrogate U+D800 and of the
  lone surrogate U+D801 are different strings, and for a supported model and language
  they get the same key, because \<open>Buffer.from\<close> encodes both as U+FFFD.
\<close>

theorem lone_surrogate_key_counterexample:
  "js ''gpt-4o'' \<in> set (map fst CONFIG_models)
   \<and> js ''Python'' \<in> set CONFIG_languages
   \<and> [0xD800] \<noteq> ([0xD801] :: jsstring)
   \<and> cacheKey (js ''gpt-4o'') (js ''Python'') [0xD800]
       = cacheKey (js ''gpt-4o'') (js ''Python'') [0xD801]
   \<and> cacheKey (js ''gpt-4o'') (js ''Python'') [0xD800]
       = js ''codegen:gpt-4o:Python:77+9''"
proof -
  have "js ''gpt-4o'' \<in> set (map fst CONFIG_models)"
    by (simp add: CONFIG_models_def js_def)
  moreover have "js ''Python'' \<in> set CONFIG_languages"
    by (simp add: CONFIG_languages_def js_def)
  moreover have "[0xD800] \<noteq> ([0xD801] :: jsstring)"
    by simp
  moreover have "cacheKey (js ''gpt-4o'') (js ''Python'') [0xD800]
       = js ''codegen:gpt-4o:Python:77+9''"
    by (simp add: key_eval)
  moreover have "cacheKey (js ''gpt-4o'') (js ''Python'') [0xD801]
       = js ''codegen:gpt-4o:Python:77+9''"
    by (simp add: key_eval)
  ultimately show ?thesis by simp
qed

section \<open>Properties of the request pipeline\<close>

lemma generate_bad_language:
  "language_of req \<notin> set CONFIG_languages \<Longrightarrow>
   generate e c req =
     (res_json 400 [(''status'', JBool False),
        (''error'', JStr (js ''Unsupported language. Available: ''
                          @ join (js '', '') CONFIG_languages))], c, [])"
  by (simp add: generate_def try_block_def)

lemma generate_bad_model:
  "language_of req \<in> set CONFIG_languages \<Longrightarrow> models_lookup (model_of req) = Missing \<Longrightarrow>
   generate e c req =
     (res_json 400 [(''status'', JBool False),
        (''error'', JStr (js ''Unsupported model. Available: ''
                          @ join (js '', '') (map fst CONFIG_models)))], c, [])"
  by (simp add: generate_def try_block_def)

lemma generate_no_prompt:
  "validated req \<Longrightarrow> prompt req = None \<Longrightarrow>
   generate e c req = (catch_block (TypeError (type_error_message e)), c, [])"
  by (simp add: generate_def try_block_def validated_def)

lemma generate_get_fails:
  "validated req \<Longrightarrow> prompt req = Some p \<Longrightarrow> get_error e = Some msg \<Longrightarrow>
   generate e c req = (catch_block (RedisError msg), c, [CacheGet (key_of req p)])"
  by (simp add: generate_def try_block_def validated_def key_of_def)

lemma generate_hit:
  "validated req \<Longrightarrow> prompt req = Some p \<Longrightarrow> get_error e = None \<Longrightarrow>
   redis_get c (now e) (key_of req p) = Some v \<Longrightarrow> v \<noteq> [] \<Longrightarrow>
   generate e c req =
     (res_json 200 [(''status'', JBool True), (''code'', JStr v), (''cached'', JBool True)],
      c, [CacheGet (key_of req p)])"
  by (simp add: generate_def try_block_def validated_def key_of_def)

lemma generate_miss:
  "validated req \<Longrightarrow> prompt req = Some p \<Longrightarrow> get_error e = None \<Longrightarrow>
   \<not> cache_hit c (now e) (key_of req p) \<Longrightarrow>
   generate e c req =
     (case on_miss e c (model_of req) (language_of req) p (key_of req p) of
        (Inr r, c', calls) \<Rightarrow> (r, c', calls)
      | (Inl error, c', calls) \<Rightarrow> (catch_block error, c', calls))"
  by (auto simp add: generate_def try_block_def validated_def key_of_def cache_hit_def Let_def
      split: option.splits)

lemma on_miss_rejected:
  "upstream e = Rejected msg resp \<Longrightarrow>
   on_miss e c m l p k = (Inl (AxiosError msg resp), c, [CacheGet k, axios_post m l p])"
  by (simp add: on_miss_def)

lemma on_miss_malformed:
  "on_miss e c m l p k =
     (Inl (TypeError (type_error_message e)), c, [CacheGet k, axios_post m l p])"
  if "upstream e = Resolved result" "\<forall>raw. get_prop result (js ''code'') \<noteq> Some (JStr raw)"
proof (cases "get_prop result (js ''code'')")
  case None
  then show ?thesis using that by (simp add: on_miss_def)
next
  case (Some v)
  then show ?thesis using that by (cases v) (simp_all add: on_miss_def)
qed

lemma on_miss_empty:
  "upstream e = Resolved result \<Longrightarrow> get_prop result (js ''code'') = Some (JStr raw) \<Longrightarrow>
   cleanCode raw = [] \<Longrightarrow>
   on_miss e c m l p k =
     (Inr (res_json 200 (success_body (js ''No code generated.'') result m l)),
      c, [CacheGet k, axios_post m l p])"
  by (simp add: on_miss_def Let_def success_body_def)

lemma on_miss_set_fails:
  "upstream e = Resolved result \<Longrightarrow> get_prop result (js ''code'') = Some (JStr raw) \<Longrightarrow>
   cleanCode raw \<noteq> [] \<Longrightarrow> set_error e = Some msg \<Longrightarrow>
   on_miss e c m l p k =
     (Inl (RedisError msg), c,
      [CacheGet k, axios_post m l p, CacheSetEx k CONFIG_cacheTTL (cleanCode raw)])"
  by (simp add: on_miss_def Let_def)

lemma on_miss_stored:
  "upstream e = Resolved result \<Longrightarrow> get_prop result (js ''code'') = Some (JStr raw) \<Longrightarrow>
   cleanCode raw \<noteq> [] \<Longrightarrow> set_error e = None \<Longrightarrow>
   on_miss e c m l p k =
     (Inr (res_json 200 (success_body (cleanCode raw) result m l)),
      redis_setEx c (now e + elapsed e) k CONFIG_cacheTTL (cleanCode raw),
      [CacheGet k, axios_post m l p, CacheSetEx k CONFIG_cacheTTL (cleanCode raw)])"
  by (simp add: on_miss_def Let_def success_body_def)

text \<open>Every run of the handler takes one of ten paths.\<close>

lemma generate_cases [case_names bad_language bad_model no_prompt get_fails hit rejected
    malformed empty set_fails stored]:
  obtains
    "language_of req \<notin> set CONFIG_languages"
    "generate e c req =
       (res_json 400 [(''status'', JBool False),
          (''error'', JStr (js ''Unsupported language. Available: ''
                            @ join (js '', '') CONFIG_languages))], c, [])"
  | "language_of req \<in> set CONFIG_languages" "models_lookup (model_of req) = Missing"
    "generate e c req =
       (res_json 400 [(''status'', JBool False),
          (''error'', JStr (js ''Unsupported model. Available: ''
                            @ join (js '', '') (map fst CONFIG_models)))], c, [])"
  | "validated req" "prompt req = None"
    "generate e c req = (catch_block (TypeError (type_error_message e)), c, [])"
  | p msg where "validated req" "prompt req = Some p" "get_error e = Some msg"
    "generate e c req = (catch_block (RedisError msg), c, [CacheGet (key_of req p)])"
  | p v where "validated req" "prompt req = Some p" "get_error e = None"
    "redis_get c (now e) (key_of req p) = Some v" "v \<noteq> []"
    "generate e c req =
       (res_json 200 [(''status'', JBool True), (''code'', JStr v), (''cached'', JBool True)],
        c, [CacheGet (key_of req p)])"
  | p msg resp where "validated req" "prompt req = Some p" "get_error e = None"
    "\<not> cache_hit c (now e) (key_of req p)" "upstream e = Rejected msg resp"
    "generate e c req =
       (catch_block (AxiosError msg resp), c,
        [CacheGet (key_of req p), axios_post (model_of req) (language_of req) p])"
  | p result where "validated req" "prompt req = Some p" "get_error e = None"
    "\<not> cache_hit c (now e) (key_of req p)" "upstream e = Resolved result"
    "\<forall>raw. get_prop result (js ''code'') \<noteq> Some (JStr raw)"
    "generate e c req =
       (catch_block (TypeError (type_error_message e)), c,
        [CacheGet (key_of req p), axios_post (model_of req) (language_of req) p])"
  | p result raw where "validated req" "prompt req = Some p" "get_error e = None"
    "\<not> cache_hit c (now e) (key_of req p)" "upstream e = Resolved result"
    "get_prop result (js ''code'') = Some (JStr raw)" "cleanCode raw = []"
    "generate e c req =
       (res_json 200 (success_body (js ''No code generated.'') result (model_of req) (language_of req)),
        c, [CacheGet (key_of req p), axios_post (model_of req) (language_of req) p])"
  | p result raw msg where "validated req" "prompt req = Some p" "get_error e = None"
    "\<not> cache_hit c (now e) (key_of req p)" "upstream e = Resolved result"
    "get_prop result (js ''code'') = Some (JStr raw)" "cleanCode raw \<noteq> []"
    "set_error e = Some msg"
    "generate e c req =
       (catch_block (RedisError msg), c,
        [CacheGet (key_of req p), axios_post (model_of req) (language_of req) p,
         CacheSetEx (key_of req p) CONFIG_cacheTTL (cleanCode raw)])"
  | p result raw where "validated req" "prompt req = Some p" "get_error e = None"
    "\<not> cache_hit c (now e) (key_of req p)" "upstream e = Resolved result"
    "get_prop result (js ''code'') = Some (JStr raw)" "cleanCode raw \<noteq> []"
    "set_error e = None"
    "generate e c req =
       (res_json 200 (success_body (cleanCode raw) result (model_of req) (language_of req)),
        redis_setEx c (now e + elapsed e) (key_of req p) CONFIG_cacheTTL (cleanCode raw),
        [CacheGet (key_of req p), axios_post (model_of req) (language_of req) p,
         CacheSetEx (key_of req p) CONFIG_cacheTTL (cleanCode raw)])"
proof (cases "language_of req \<in> set CONFIG_languages")
  case False
  then show ?thesis using that(1) generate_bad_language by blast
next
  case lang: True
  show ?thesis
  proof (cases "models_lookup (model_of req) = Missing")
    case True
    then show ?thesis using that(2) lang generate_bad_model by blast
  next
    case False
    then have val: "validated req" using lang by (simp add: validated_def)
    show ?thesis
    proof (cases "prompt req")
      case None
      then show ?thesis using that(3) val generate_no_prompt by blast
    next
      case (Some p)
      note p = this
      show ?thesis
      proof (cases "get_error e")
        case (Some msg)
        then show ?thesis using that(4) val p generate_get_fails by blast
      next
        case None
        note noerr = this
        show ?thesis
        proof (cases "cache_hit c (now e) (key_of req p)")
          case True
          then obtain v where "redis_get c (now e) (key_of req p) = Some v" "v \<noteq> []"
            by (auto simp: cache_hit_def split: option.splits)
          then show ?thesis using that(5) val p noerr generate_hit by blast
        next
          case False
          note miss = this
          note gm = generate_miss[OF val p noerr miss]
          show ?thesis
          proof (cases "upstream e")
            case (Rejected msg resp)
            then show ?thesis
              using that(6)[OF val p noerr miss Rejected] gm
              by (simp add: on_miss_rejected)
          next
            case (Resolved result)
            note res = this
            show ?thesis
            proof (cases "\<exists>raw. get_prop result (js ''code'') = Some (JStr raw)")
              case False
              then have "\<forall>raw. get_prop result (js ''code'') \<noteq> Some (JStr raw)" by blast
              then show ?thesis
                using that(7)[OF val p noerr miss res] gm
                by (simp add: on_miss_malformed[OF res])
            next
              case True
              then obtain raw where raw: "get_prop result (js ''code'') = Some (JStr raw)"
                by blast
              show ?thesis
              proof (cases "cleanCode raw = []")
                case True
                then show ?thesis
                  using that(8)[OF val p noerr miss res raw] gm
                  by (simp add: on_miss_empty[OF res raw])
              next
                case False
                note ne = this
                show ?thesis
                proof (cases "set_error e")
                  case (Some msg)
                  then show ?thesis
                    using that(9)[OF val p noerr miss res raw ne] gm
                    by (simp add: on_miss_set_fails[OF res raw ne])
                next
                  case None
                  then show ?thesis
                    using that(10)[OF val p noerr miss res raw ne] gm
                    by (simp add: on_miss_stored[OF res raw ne])
                qed
              qed
            qed
          qed
        qed
      qed
    qed
  qed
qed

lemma field_simps:
  "field (res_json n obj) k = map_of (filter (\<lambda>kv. snd kv \<noteq> JUndefined) obj) k"
  "http_status (res_json n obj) = n"
  by (simp_all add: field_def res_json_def)

lemma catch_block_fields:
  "http_status (catch_block err) = 500"
  "field (catch_block err) ''status'' = Some (JBool False)"
  "field (catch_block err) ''retryable'' =
     Some (JBool (case error_response err of None \<Rightarrow> True | Some r \<Rightarrow> status r \<ge> 500))"
  "field (catch_block err) ''cached'' = None"
  by (simp_all add: catch_block_def res_json_def field_def)

lemma success_body_fields:
  "map_of (filter (\<lambda>kv. snd kv \<noteq> JUndefined) (success_body code' result m l)) ''status''
     = Some (JBool True)"
  "map_of (filter (\<lambda>kv. snd kv \<noteq> JUndefined) (success_body code' result m l)) ''code''
     = Some (JStr code')"
  "map_of (filter (\<lambda>kv. snd kv \<noteq> JUndefined) (success_body code' result m l)) ''model''
     = Some (JStr m)"
  "map_of (filter (\<lambda>kv. snd kv \<noteq> JUndefined) (success_body code' result m l)) ''language''
     = Some (JStr l)"
  "map_of (filter (\<lambda>kv. snd kv \<noteq> JUndefined) (success_body code' result m l)) ''cached''
     = Some (JBool False)"
  by (simp_all add: success_body_def)

lemma axios_post_kind:
  "is_upstream_call (axios_post m l p)" "\<not> is_cache_write (axios_post m l p)"
  "\<not> is_cache_call (axios_post m l p)"
  by (simp_all add: axios_post_def)

lemma generate_keeps_live_entry:
  assumes "c k = Some (v, x)" and "v \<noteq> []" and "now e < x"
  shows "fst (snd (generate e c req)) k = Some (v, x)"
proof (cases rule: generate_cases[of req e c])
  case (stored p result raw)
  have "cache_hit c (now e) k"
    using assms by (simp add: cache_hit_def redis_get_def)
  then have "key_of req p \<noteq> k"
    using stored(4) by auto
  then show ?thesis
    using stored assms(1) by (simp add: redis_setEx_def)
qed (simp_all add: assms)

lemma serve_keeps_live_entry:
  assumes "c k = Some (v, x)" and "v \<noteq> []" and "\<forall>y \<in> set others. now (fst y) < x"
  shows "serve c others k = Some (v, x)"
  using assms
proof (induction others arbitrary: c)
  case Nil
  then show ?case by simp
next
  case (Cons y others)
  obtain e req where y: "y = (e, req)" by (cases y)
  have "fst (snd (generate e c req)) k = Some (v, x)"
    using Cons.prems y by (intro generate_keeps_live_entry) auto
  then show ?case
    using Cons y by simp
qed

lemma generate_stored:
  assumes "validated req" "prompt req = Some p" "get_error e = None"
    "\<not> cache_hit c (now e) (key_of req p)" "upstream e = Resolved result"
    "get_prop result (js ''code'') = Some (JStr raw)" "cleanCode raw \<noteq> []" "set_error e = None"
  shows "generate e c req =
       (res_json 200 (success_body (cleanCode raw) result (model_of req) (language_of req)),
        redis_setEx c (now e + elapsed e) (key_of req p) CONFIG_cacheTTL (cleanCode raw),
        [CacheGet (key_of req p), axios_post (model_of req) (language_of req) p,
         CacheSetEx (key_of req p) CONFIG_cacheTTL (cleanCode raw)])"
  using generate_miss[OF assms(1-4)] on_miss_stored[OF assms(5-8)] by simp

lemma generate_empty:
  assumes "validated req" "prompt req = Some p" "get_error e = None"
    "\<not> cache_hit c (now e) (key_of req p)" "upstream e = Resolved result"
    "get_prop result (js ''code'') = Some (JStr raw)" "cleanCode raw = []"
  shows "generate e c req =
       (res_json 200 (success_body (js ''No code generated.'') result (model_of req) (language_of req)),
        c, [CacheGet (key_of req p), axios_post (model_of req) (language_of req) p])"
  using generate_miss[OF assms(1-4)] on_miss_empty[OF assms(5-7)] by simp

lemma generate_set_fails:
  assumes "validated req" "prompt req = Some p" "get_error e = None"
    "\<not> cache_hit c (now e) (key_of req p)" "upstream e = Resolved result"
    "get_prop result (js ''code'') = Some (JStr raw)" "cleanCode raw \<noteq> []"
    "set_error e = Some msg"
  shows "generate e c req =
       (catch_block (RedisError msg), c,
        [CacheGet (key_of req p), axios_post (model_of req) (language_of req) p,
         CacheSetEx (key_of req p) CONFIG_cacheTTL (cleanCode raw)])"
  using generate_miss[OF assms(1-4)] on_miss_set_fails[OF assms(5-8)] by simp

lemma generate_rejected:
  assumes "validated req" "prompt req = Some p" "get_error e = None"
    "\<not> cache_hit c (now e) (key_of req p)" "upstream e = Rejected msg resp"
  shows "generate e c req =
       (catch_block (AxiosError msg resp), c,
        [CacheGet (key_of req p), axios_post (model_of req) (language_of req) p])"
  using generate_miss[OF assms(1-4)] on_miss_rejected[OF assms(5)] by simp

lemma generate_malformed:
  assumes "validated req" "prompt req = Some p" "get_error e = None"
    "\<not> cache_hit c (now e) (key_of req p)" "upstream e = Resolved result"
    "\<forall>raw. get_prop result (js ''code'') \<noteq> Some (JStr raw)"
  shows "generate e c req =
       (catch_block (TypeError (type_error_message e)), c,
        [CacheGet (key_of req p), axios_post (model_of req) (language_of req) p])"
  using generate_miss[OF assms(1-4)] on_miss_malformed[OF assms(5,6)] by simp

lemma catch_block_RedisError:
  "catch_block (RedisError msg) =
     \<lparr>http_status = 500,
      body = [(''status'', JBool False), (''error'', JStr (js ''Request failed: '' @ msg)),
              (''retryable'', JBool True)]\<rparr>"
  by (simp add: catch_block_def res_json_def)

lemma models_lookup_Missing_iff:
  "models_lookup m = Missing
     \<longleftrightarrow> m \<notin> set (map fst CONFIG_models) \<and> m \<notin> set object_prototype_keys"
  by (auto simp: models_lookup_def map_of_eq_None_iff[symmetric] split: option.splits)

lemma supported_validated: "supported req \<Longrightarrow> validated req"
  by (simp add: supported_def validated_def models_lookup_Missing_iff)

text \<open>
  What the two checks of lines 47-59 reject: a language outside \<open>CONFIG.languages\<close>, and
  a model for which \<open>CONFIG.models[model]\<close> is \<open>undefined\<close>, that is a name that is
  neither a key of \<open>CONFIG.models\<close> nor a property of \<open>Object.prototype\<close>.
\<close>

lemma unsupported_request_rejected:
  assumes "\<not> supported req" and "model_of req \<notin> set object_prototype_keys"
    and "generate e c req = (r, c', calls)"
  shows "http_status r = 400 \<and> field r ''status'' = Some (JBool False)
         \<and> (\<exists>text. field r ''error'' = Some (JStr text)) \<and> c' = c \<and> calls = []"
proof -
  have "language_of req \<notin> set CONFIG_languages \<or> models_lookup (model_of req) = Missing"
    using assms(1,2) by (auto simp: supported_def models_lookup_Missing_iff)
  then show ?thesis
    using assms(3)
    by (cases rule: generate_cases[of req e c]) (auto simp: field_simps validated_def)
qed

text \<open>
  The reply of the upstream path (\<open>cached: false\<close>) has \<open>status: true\<close>, the code, the
  model and the language.
\<close>

lemma upstream_success_reply_fields:
  assumes "generate e c req = (r, c', calls)" and "field r ''cached'' = Some (JBool False)"
  shows "http_status r = 200 \<and> field r ''status'' = Some (JBool True)
         \<and> (\<exists>text. field r ''code'' = Some (JStr text))
         \<and> field r ''model'' = Some (JStr (model_of req))
         \<and> field r ''language'' = Some (JStr (language_of req))"
  using assms
  by (cases rule: generate_cases[of req e c])
     (auto simp: field_simps catch_block_fields success_body_fields)

section \<open>The example runs\<close>

lemmas pipeline_eval = validated_def language_of_def model_of_def CONFIG_languages_def
  CONFIG_models_def models_lookup_def object_prototype_keys_def

lemma req_sort_facts:
  "validated req_sort" "prompt req_sort = Some (js ''sort a list'')"
  "key_of req_sort (js ''sort a list'') = key_sort"
  "model_of req_sort = js ''gpt-4o''" "language_of req_sort = js ''Python''"
  by (simp_all add: req_sort_def pipeline_eval key_of_def key_sort_def key_eval)

lemma empty_cache_misses: "\<not> cache_hit Map.empty t k"
  by (simp add: cache_hit_def redis_get_def)

lemma env_ok_facts:
  "get_error env_ok = None" "set_error env_ok = None" "now env_ok = 100" "elapsed env_ok = 2"
  "upstream env_ok = Resolved (JObj [(js ''code'', JStr raw_example),
                                 (js ''explanation'', JStr (js ''two lines''))])"
  "get_prop (JObj [(js ''code'', JStr raw_example),
                   (js ''explanation'', JStr (js ''two lines''))]) (js ''code'') = Some (JStr raw_example)"
  "cleanCode raw_example \<noteq> []"
  by (simp_all add: env_ok_def js_def cleanCode_raw_example)

lemma first_run:
  "generate env_ok Map.empty req_sort =
     (res_json 200 (success_body (cleanCode raw_example)
         (JObj [(js ''code'', JStr raw_example), (js ''explanation'', JStr (js ''two lines''))])
         (js ''gpt-4o'') (js ''Python'')),
      cache_first,
      [CacheGet key_sort, axios_post (js ''gpt-4o'') (js ''Python'') (js ''sort a list''),
       CacheSetEx key_sort 3600 (cleanCode raw_example)])"
  using generate_stored[OF req_sort_facts(1,2) env_ok_facts(1) empty_cache_misses env_ok_facts(5,6,7,2)]
  by (simp add: req_sort_facts env_ok_facts cache_first_def CONFIG_cacheTTL_def)

lemma env_blank_facts:
  "get_error env_blank = None"
  "upstream env_blank = Resolved (JObj [(js ''code'', JStr (js ''  '' @ [backslash, letter_n]))])"
  "get_prop (JObj [(js ''code'', JStr (js ''  '' @ [backslash, letter_n]))]) (js ''code'')
     = Some (JStr (js ''  '' @ [backslash, letter_n]))"
  "cleanCode (js ''  '' @ [backslash, letter_n]) = []"
  by (simp_all add: env_blank_def env_ok_def js_def cleanCode_def trim_def is_space_def
      white_space_def char_defs)

lemma env_variants:
  "get_error env_timeout = None" "upstream env_timeout = Rejected (js ''timeout of 30000ms exceeded'') None"
  "get_error env_503 = None"
  "upstream env_503 = Rejected (js ''Request failed with status code 503'')
                 (Some \<lparr>status = 503, data_message = None\<rparr>)"
  "get_error env_404 = None"
  "upstream env_404 = Rejected (js ''Request failed with status code 404'')
                 (Some \<lparr>status = 404, data_message = Some (js ''Not Found'')\<rparr>)"
  "get_error env_no_code = None"
  "upstream env_no_code = Resolved (JObj [(js ''explanation'', JStr (js ''none''))])"
  "\<forall>raw. get_prop (JObj [(js ''explanation'', JStr (js ''none''))]) (js ''code'') \<noteq> Some (JStr raw)"
  "type_error_message env_no_code = js ''TypeError''"
  by (simp_all add: env_timeout_def env_503_def env_404_def env_no_code_def env_ok_def js_def)

lemma run_timeout:
  "generate env_timeout Map.empty req_sort =
     (catch_block (AxiosError (js ''timeout of 30000ms exceeded'') None), Map.empty,
      [CacheGet key_sort, axios_post (js ''gpt-4o'') (js ''Python'') (js ''sort a list'')])"
  using generate_rejected[OF req_sort_facts(1,2) env_variants(1) empty_cache_misses env_variants(2)]
  by (simp add: req_sort_facts)

lemma run_503:
  "generate env_503 Map.empty req_sort =
     (catch_block (AxiosError (js ''Request failed with status code 503'')
                 (Some \<lparr>status = 503, data_message = None\<rparr>)), Map.empty,
      [CacheGet key_sort, axios_post (js ''gpt-4o'') (js ''Python'') (js ''sort a list'')])"
  using generate_rejected[OF req_sort_facts(1,2) env_variants(3) empty_cache_misses env_variants(4)]
  by (simp add: req_sort_facts)

lemma run_404:
  "generate env_404 Map.empty req_sort =
     (catch_block (AxiosError (js ''Request failed with status code 404'')
                 (Some \<lparr>status = 404, data_message = Some (js ''Not Found'')\<rparr>)), Map.empty,
      [CacheGet key_sort, axios_post (js ''gpt-4o'') (js ''Python'') (js ''sort a list'')])"
  using generate_rejected[OF req_sort_facts(1,2) env_variants(5) empty_cache_misses env_variants(6)]
  by (simp add: req_sort_facts)

lemma run_no_code:
  "generate env_no_code Map.empty req_sort =
     (catch_block (TypeError (js ''TypeError'')), Map.empty,
      [CacheGet key_sort, axios_post (js ''gpt-4o'') (js ''Python'') (js ''sort a list'')])"
  using generate_malformed[OF req_sort_facts(1,2) env_variants(7) empty_cache_misses env_variants(8,9)]
  by (simp add: req_sort_facts env_variants)

lemma env_fails_facts:
  "get_error env_get_fails = Some (js ''Connection is closed.'')"
  "get_error env_set_fails = None" "set_error env_set_fails = Some (js ''Connection is closed.'')"
  "upstream env_set_fails = Resolved (JObj [(js ''code'', JStr raw_example),
                                 (js ''explanation'', JStr (js ''two lines''))])"
  "now env_set_fails = 100"
  by (simp_all add: env_get_fails_def env_set_fails_def env_ok_def)

lemma default_request_facts:
  "validated req_no_prompt" "prompt req_no_prompt = None"
  "validated req_empty_prompt" "prompt req_empty_prompt = Some []"
  "model_of req_empty_prompt = js ''gpt-4o-mini''" "language_of req_empty_prompt = js ''JavaScript''"
  by (simp_all add: req_no_prompt_def req_empty_prompt_def pipeline_eval js_def)

lemma req_constructor_facts:
  "validated req_constructor" "prompt req_constructor = Some (js ''sort a list'')"
  "model_of req_constructor = js ''constructor''" "language_of req_constructor = js ''JavaScript''"
  "js ''constructor'' \<notin> set (map fst CONFIG_models)"
  "models_lookup (js ''constructor'') = Inherited"
  by (simp_all add: req_constructor_def pipeline_eval js_def)

lemma key_of_req_constructor:
  "key_of req_constructor (js ''sort a list'')
     = js ''codegen:constructor:JavaScript:c29ydCBhIGxpc3Q=''"
  by (simp add: key_of_def req_constructor_def language_of_def model_of_def key_eval)

lemma run_hit:
  "generate env_later cache_warm req_sort =
     (res_json 200 [(''status'', JBool True), (''code'', JStr (js ''xs.sort()'')),
                    (''cached'', JBool True)], cache_warm, [CacheGet key_sort])"
proof -
  have "redis_get cache_warm (now env_later) (key_of req_sort (js ''sort a list''))
          = Some (js ''xs.sort()'')"
    by (simp add: req_sort_facts redis_get_def cache_warm_def env_later_def)
  moreover have "js ''xs.sort()'' \<noteq> []" by (simp add: js_def)
  moreover have "get_error env_later = None" by (simp add: env_later_def)
  ultimately show ?thesis
    using generate_hit[OF req_sort_facts(1,2), of env_later cache_warm "js ''xs.sort()''"]
    by (simp add: req_sort_facts)
qed

text \<open>The spec's example of a rejected request: the language Haskell.\<close>

lemma run_haskell:
  "generate e c req_haskell =
     (res_json 400 [(''status'', JBool False),
        (''error'', JStr (js ''Unsupported language. Available: ''
                          @ join (js '', '') CONFIG_languages))], c, [])"
  by (rule generate_bad_language)
     (simp add: req_haskell_def language_of_def CONFIG_languages_def js_def)

section \<open>The claims about the request pipeline\<close>

text \<open>
  C1. Let a request complete successfully on the upstream path (status 200,
  \<open>cached: false\<close>) with a non-empty normalised result, which the handler stores at time
  \<open>now e1 + elapsed e1\<close>. Then the same request, handled at any time before that entry's
  TTL runs out by a handler whose cache read does not fail, is served from the cache:
  the reply is \<open>{status: true, code, cached: true}\<close> with the stored code, and the only
  call is the cache read, so the upstream is not called a second time. This holds
  whatever other requests were handled in between (\<open>others\<close>), as long as they too were
  handled within the TTL window.
\<close>

theorem repeat_request_served_from_cache:
  assumes first: "generate e1 c0 req = (r1, c1, calls1)"
    and ok: "http_status r1 = 200" "field r1 ''cached'' = Some (JBool False)"
    and res: "upstream e1 = Resolved result" "get_prop result (js ''code'') = Some (JStr raw)"
      "cleanCode raw \<noteq> []"
    and between: "\<forall>y \<in> set others. now (fst y) < now e1 + elapsed e1 + CONFIG_cacheTTL"
    and window: "now e2 < now e1 + elapsed e1 + CONFIG_cacheTTL"
    and up: "get_error e2 = None"
  shows "\<exists>p. prompt req = Some p
           \<and> generate e2 (serve c1 others) req =
               (res_json 200 [(''status'', JBool True), (''code'', JStr (cleanCode raw)),
                              (''cached'', JBool True)],
                serve c1 others, [CacheGet (key_of req p)])"
  using first
proof (cases rule: generate_cases[of req e1 c0])
  case (stored p result' raw')
  have "raw' = raw" using stored(5,6) res by simp
  then have "c1 (key_of req p) = Some (cleanCode raw, now e1 + elapsed e1 + CONFIG_cacheTTL)"
    using stored(9) first by (simp add: redis_setEx_def)
  then have "serve c1 others (key_of req p)
               = Some (cleanCode raw, now e1 + elapsed e1 + CONFIG_cacheTTL)"
    using res(3) between by (rule serve_keeps_live_entry)
  then have "redis_get (serve c1 others) (now e2) (key_of req p) = Some (cleanCode raw)"
    using window by (simp add: redis_get_def)
  then show ?thesis
    using generate_hit[OF stored(1,2) up _ res(3)] stored(2) by simp
next
  case (empty p result' raw')
  then show ?thesis using res by simp
qed (use first ok in \<open>auto simp: field_simps catch_block_fields\<close>)

text \<open>
  A run for C1: the first request is answered by the upstream at time 100 and stored at
  102; another request is handled at 500; the first request is repeated at 3000, with an
  upstream that would time out, and is served from the cache.
\<close>

theorem repeat_request_served_from_cache_witness:
  "generate env_ok Map.empty req_sort =
     (res_json 200 (success_body (cleanCode raw_example)
         (JObj [(js ''code'', JStr raw_example), (js ''explanation'', JStr (js ''two lines''))])
         (js ''gpt-4o'') (js ''Python'')),
      cache_first,
      [CacheGet key_sort, axios_post (js ''gpt-4o'') (js ''Python'') (js ''sort a list''),
       CacheSetEx key_sort 3600 (cleanCode raw_example)])
   \<and> cleanCode raw_example \<noteq> []
   \<and> now env_between < now env_ok + elapsed env_ok + CONFIG_cacheTTL
   \<and> now env_later < now env_ok + elapsed env_ok + CONFIG_cacheTTL
   \<and> get_error env_later = None
   \<and> generate env_later (serve cache_first [(env_between, req_other)]) req_sort =
       (res_json 200 [(''status'', JBool True), (''code'', JStr (cleanCode raw_example)),
                      (''cached'', JBool True)],
        serve cache_first [(env_between, req_other)], [CacheGet key_sort])"
proof -
  let ?r1 = "res_json 200 (success_body (cleanCode raw_example)
         (JObj [(js ''code'', JStr raw_example), (js ''explanation'', JStr (js ''two lines''))])
         (js ''gpt-4o'') (js ''Python''))"
  have ok: "http_status ?r1 = 200" "field ?r1 ''cached'' = Some (JBool False)"
    by (simp_all add: field_simps success_body_fields)
  have between: "\<forall>y \<in> set [(env_between, req_other)].
      now (fst y) < now env_ok + elapsed env_ok + CONFIG_cacheTTL"
    by (simp add: env_between_def env_ok_def CONFIG_cacheTTL_def)
  have window: "now env_later < now env_ok + elapsed env_ok + CONFIG_cacheTTL"
    by (simp add: env_later_def env_ok_def CONFIG_cacheTTL_def)
  have up: "get_error env_later = None"
    by (simp add: env_later_def)
  show ?thesis
    using repeat_request_served_from_cache[OF first_run ok env_ok_facts(5,6,7) between window up]
      first_run env_ok_facts(7) between window up
    by (simp add: req_sort_facts)
qed

text \<open>
  C2, as the code has it. For a request that passes validation and has a prompt, an
  error thrown by the cache read or by the cache write aborts the request: the reply has
  status 500 with \<open>status: false\<close>, \<open>retryable: true\<close> and the cache error's message in
  \<open>error\<close>. After a failed read no upstream call is made; a failed write comes after
  the upstream call, and the success response is not sent.
\<close>

theorem cache_failure_aborts_request:
  assumes "validated req" and "prompt req = Some p"
  shows "(get_error e = Some msg \<longrightarrow>
            generate e c req =
              (\<lparr>http_status = 500,
                body = [(''status'', JBool False),
                        (''error'', JStr (js ''Request failed: '' @ msg)),
                        (''retryable'', JBool True)]\<rparr>,
               c, [CacheGet (key_of req p)]))
       \<and> (get_error e = None \<and> \<not> cache_hit c (now e) (key_of req p)
            \<and> upstream e = Resolved result
            \<and> get_prop result (js ''code'') = Some (JStr raw) \<and> cleanCode raw \<noteq> []
            \<and> set_error e = Some msg \<longrightarrow>
            generate e c req =
              (\<lparr>http_status = 500,
                body = [(''status'', JBool False),
                        (''error'', JStr (js ''Request failed: '' @ msg)),
                        (''retryable'', JBool True)]\<rparr>,
               c, [CacheGet (key_of req p), axios_post (model_of req) (language_of req) p,
                   CacheSetEx (key_of req p) CONFIG_cacheTTL (cleanCode raw)]))"
  using generate_get_fails[OF assms, of e msg c] generate_set_fails[OF assms, of e c result raw msg]
  by (simp add: catch_block_RedisError)

text \<open>A failing cache read and a failing cache write, for C2.\<close>

theorem cache_failure_aborts_request_witness:
  "validated req_sort \<and> prompt req_sort = Some (js ''sort a list'')
   \<and> get_error env_get_fails = Some (js ''Connection is closed.'')
   \<and> generate env_get_fails Map.empty req_sort =
        (\<lparr>http_status = 500,
          body = [(''status'', JBool False),
                  (''error'', JStr (js ''Request failed: '' @ js ''Connection is closed.'')),
                  (''retryable'', JBool True)]\<rparr>,
         Map.empty, [CacheGet key_sort])
   \<and> set_error env_set_fails = Some (js ''Connection is closed.'')
   \<and> generate env_set_fails Map.empty req_sort =
        (\<lparr>http_status = 500,
          body = [(''status'', JBool False),
                  (''error'', JStr (js ''Request failed: '' @ js ''Connection is closed.'')),
                  (''retryable'', JBool True)]\<rparr>,
         Map.empty,
         [CacheGet key_sort, axios_post (js ''gpt-4o'') (js ''Python'') (js ''sort a list''),
          CacheSetEx key_sort CONFIG_cacheTTL (cleanCode raw_example)])"
  using cache_failure_aborts_request[OF req_sort_facts(1,2),
      where e = env_get_fails and msg = "js ''Connection is closed.''" and c = Map.empty]
    cache_failure_aborts_request[OF req_sort_facts(1,2),
      where e = env_set_fails and msg = "js ''Connection is closed.''" and c = Map.empty
        and raw = raw_example
        and result = "JObj [(js ''code'', JStr raw_example),
                            (js ''explanation'', JStr (js ''two lines''))]"]
    req_sort_facts env_fails_facts env_ok_facts(6,7) empty_cache_misses
  by simp

text \<open>
  C2 as stated fails: with a failing cache read the reply is a 500 that carries the
  cache error's message and the upstream is not called; with a failing cache write the
  reply is a 500 as well.
\<close>

theorem cache_failure_counterexample:
  "get_error env_get_fails = Some (js ''Connection is closed.'')
   \<and> http_status (fst (generate env_get_fails Map.empty req_sort)) = 500
   \<and> field (fst (generate env_get_fails Map.empty req_sort)) ''error''
        = Some (JStr (js ''Request failed: '' @ js ''Connection is closed.''))
   \<and> \<not> list_ex is_upstream_call (snd (snd (generate env_get_fails Map.empty req_sort)))
   \<and> set_error env_set_fails = Some (js ''Connection is closed.'')
   \<and> http_status (fst (generate env_set_fails Map.empty req_sort)) = 500
   \<and> field (fst (generate env_set_fails Map.empty req_sort)) ''error''
        = Some (JStr (js ''Request failed: '' @ js ''Connection is closed.''))"
proof -
  have "generate env_get_fails Map.empty req_sort =
          (catch_block (RedisError (js ''Connection is closed.'')), Map.empty, [CacheGet key_sort])"
    using generate_get_fails[OF req_sort_facts(1,2) env_fails_facts(1)]
    by (simp add: req_sort_facts)
  moreover have "generate env_set_fails Map.empty req_sort =
          (catch_block (RedisError (js ''Connection is closed.'')), Map.empty,
           [CacheGet key_sort, axios_post (js ''gpt-4o'') (js ''Python'') (js ''sort a list''),
            CacheSetEx key_sort CONFIG_cacheTTL (cleanCode raw_example)])"
    using generate_set_fails[OF req_sort_facts(1,2) env_fails_facts(2) empty_cache_misses
        env_fails_facts(4) env_ok_facts(6,7) env_fails_facts(3)]
    by (simp add: req_sort_facts)
  ultimately show ?thesis
    by (simp add: env_fails_facts catch_block_RedisError field_def)
qed

text \<open>
  C3, as the code has it. A request whose prompt is missing gets a failure response with
  \<open>status: false\<close> before any cache access or upstream call: the cache is unchanged and
  no call is made. The status is 400 when the language or the model fails validation,
  and otherwise 500 with \<open>retryable: true\<close> (\<open>Buffer.from(undefined)\<close> throws). Nothing
  is said of a prompt that is the empty string.
\<close>

theorem missing_prompt_fails_before_io:
  assumes "prompt req = None" and "generate e c req = (r, c', calls)"
  shows "field r ''status'' = Some (JBool False) \<and> c' = c \<and> calls = []
         \<and> http_status r = (if validated req then 500 else 400)
         \<and> (validated req \<longrightarrow> field r ''retryable'' = Some (JBool True))"
  using assms
  by (cases rule: generate_cases[of req e c])
     (auto simp: field_simps catch_block_fields validated_def)

text \<open>A request without any field, for C3.\<close>

theorem missing_prompt_fails_before_io_witness:
  "prompt req_no_prompt = None \<and> validated req_no_prompt
   \<and> generate env_ok Map.empty req_no_prompt
        = (catch_block (TypeError (js ''TypeError'')), Map.empty, [])
   \<and> field (catch_block (TypeError (js ''TypeError''))) ''status'' = Some (JBool False)
   \<and> http_status (catch_block (TypeError (js ''TypeError''))) = 500
   \<and> field (catch_block (TypeError (js ''TypeError''))) ''retryable'' = Some (JBool True)"
proof -
  have g: "generate env_ok Map.empty req_no_prompt
        = (catch_block (TypeError (js ''TypeError'')), Map.empty, [])"
    using generate_no_prompt[OF default_request_facts(1,2), of env_ok Map.empty]
    by (simp add: env_ok_def)
  show ?thesis
    using missing_prompt_fails_before_io[OF default_request_facts(2) g] g default_request_facts(1,2)
    by simp
qed

text \<open>
  C3 as stated fails: a request whose prompt is the empty string is answered with status
  200 and \<open>status: true\<close> after a cache read and an upstream call; and a request without
  prompt is answered with status 500, not 400.
\<close>

theorem empty_prompt_counterexample:
  "prompt req_empty_prompt = Some []
   \<and> http_status (fst (generate env_ok Map.empty req_empty_prompt)) = 200
   \<and> field (fst (generate env_ok Map.empty req_empty_prompt)) ''status'' = Some (JBool True)
   \<and> list_ex is_cache_call (snd (snd (generate env_ok Map.empty req_empty_prompt)))
   \<and> list_ex is_upstream_call (snd (snd (generate env_ok Map.empty req_empty_prompt)))
   \<and> prompt req_no_prompt = None
   \<and> http_status (fst (generate env_ok Map.empty req_no_prompt)) = 500"
proof -
  have "generate env_ok Map.empty req_empty_prompt =
       (res_json 200 (success_body (cleanCode raw_example)
          (JObj [(js ''code'', JStr raw_example), (js ''explanation'', JStr (js ''two lines''))])
          (model_of req_empty_prompt) (language_of req_empty_prompt)),
        redis_setEx Map.empty (now env_ok + elapsed env_ok) (key_of req_empty_prompt [])
          CONFIG_cacheTTL (cleanCode raw_example),
        [CacheGet (key_of req_empty_prompt []),
         axios_post (model_of req_empty_prompt) (language_of req_empty_prompt) [],
         CacheSetEx (key_of req_empty_prompt []) CONFIG_cacheTTL (cleanCode raw_example)])"
    using default_request_facts(3,4) env_ok_facts(1) empty_cache_misses env_ok_facts(5,6,7,2)
    by (rule generate_stored)
  moreover have "generate env_ok Map.empty req_no_prompt
        = (catch_block (TypeError (type_error_message env_ok)), Map.empty, [])"
    using default_request_facts(1,2) by (rule generate_no_prompt)
  ultimately show ?thesis
    by (simp add: default_request_facts field_simps success_body_fields axios_post_kind
        catch_block_fields)
qed

text \<open>
  C4, as the code has it. When the handler has called the upstream and the call fails,
  the reply has status 500 and \<open>status: false\<close>, the cache is unchanged, and
  \<open>retryable\<close> is: true when no HTTP response was received (timeout, network error);
  true when the response's status is at least 500 and false when it is below 500 (so for
  every 4xx); and true when the upstream answered 2xx with a body whose \<open>code\<close> is absent
  or not a string (reading it throws a TypeError, which carries no response).
\<close>

theorem upstream_failure_classification:
  assumes "generate e c req = (r, c', calls)" and "list_ex is_upstream_call calls"
  shows "(upstream e = Rejected msg None \<longrightarrow>
            http_status r = 500 \<and> field r ''status'' = Some (JBool False)
            \<and> field r ''retryable'' = Some (JBool True) \<and> c' = c)
       \<and> (upstream e = Rejected msg (Some resp) \<longrightarrow>
            http_status r = 500 \<and> field r ''status'' = Some (JBool False)
            \<and> field r ''retryable'' = Some (JBool (status resp \<ge> 500)) \<and> c' = c)
       \<and> (upstream e = Resolved result
            \<and> (\<forall>raw. get_prop result (js ''code'') \<noteq> Some (JStr raw)) \<longrightarrow>
            http_status r = 500 \<and> field r ''status'' = Some (JBool False)
            \<and> field r ''retryable'' = Some (JBool True) \<and> c' = c)"
  using assms
  by (cases rule: generate_cases[of req e c])
     (auto simp: catch_block_fields)

text \<open>A timeout, a 503, a 404 and a body without \<open>code\<close>, for C4.\<close>

theorem upstream_failure_classification_witness:
  "list_ex is_upstream_call (snd (snd (generate env_timeout Map.empty req_sort)))
   \<and> upstream env_timeout = Rejected (js ''timeout of 30000ms exceeded'') None
   \<and> http_status (fst (generate env_timeout Map.empty req_sort)) = 500
   \<and> field (fst (generate env_timeout Map.empty req_sort)) ''retryable'' = Some (JBool True)
   \<and> list_ex is_upstream_call (snd (snd (generate env_503 Map.empty req_sort)))
   \<and> field (fst (generate env_503 Map.empty req_sort)) ''retryable'' = Some (JBool True)
   \<and> list_ex is_upstream_call (snd (snd (generate env_404 Map.empty req_sort)))
   \<and> field (fst (generate env_404 Map.empty req_sort)) ''retryable'' = Some (JBool False)
   \<and> list_ex is_upstream_call (snd (snd (generate env_no_code Map.empty req_sort)))
   \<and> (\<forall>raw. get_prop (JObj [(js ''explanation'', JStr (js ''none''))]) (js ''code'')
          \<noteq> Some (JStr raw))
   \<and> field (fst (generate env_no_code Map.empty req_sort)) ''retryable'' = Some (JBool True)"
proof -
  have u: "list_ex is_upstream_call
        [CacheGet key_sort, axios_post (js ''gpt-4o'') (js ''Python'') (js ''sort a list'')]"
    by (simp add: axios_post_kind)
  have "field (catch_block (AxiosError (js ''timeout of 30000ms exceeded'') None)) ''retryable''
          = Some (JBool True)
        \<and> http_status (catch_block (AxiosError (js ''timeout of 30000ms exceeded'') None)) = 500"
    using upstream_failure_classification[OF run_timeout u,
        where msg = "js ''timeout of 30000ms exceeded''"] env_variants(2)
    by simp
  moreover have "field (catch_block (AxiosError (js ''Request failed with status code 503'')
                 (Some \<lparr>status = 503, data_message = None\<rparr>))) ''retryable'' = Some (JBool True)"
    using upstream_failure_classification[OF run_503 u,
        where msg = "js ''Request failed with status code 503''"
          and resp = "\<lparr>status = 503, data_message = None\<rparr>"]
      env_variants(4)
    by simp
  moreover have "field (catch_block (AxiosError (js ''Request failed with status code 404'')
                 (Some \<lparr>status = 404, data_message = Some (js ''Not Found'')\<rparr>))) ''retryable''
          = Some (JBool False)"
    using upstream_failure_classification[OF run_404 u,
        where msg = "js ''Request failed with status code 404''"
          and resp = "\<lparr>status = 404, data_message = Some (js ''Not Found'')\<rparr>"]
      env_variants(6)
    by simp
  moreover have "field (catch_block (TypeError (js ''TypeError''))) ''retryable'' = Some (JBool True)"
    using upstream_failure_classification[OF run_no_code u,
        where result = "JObj [(js ''explanation'', JStr (js ''none''))]"]
      env_variants(8,9)
    by simp
  ultimately show ?thesis
    using u env_variants(2,9) by (simp add: run_timeout run_503 run_404 run_no_code)
qed

text \<open>
  C4 as stated fails: for a 2xx body without a \<open>code\<close> field the reply says
  \<open>retryable: true\<close>, not false.
\<close>

theorem malformed_body_counterexample:
  "upstream env_no_code = Resolved (JObj [(js ''explanation'', JStr (js ''none''))])
   \<and> get_prop (JObj [(js ''explanation'', JStr (js ''none''))]) (js ''code'') = Some JUndefined
   \<and> list_ex is_upstream_call (snd (snd (generate env_no_code Map.empty req_sort)))
   \<and> http_status (fst (generate env_no_code Map.empty req_sort)) = 500
   \<and> field (fst (generate env_no_code Map.empty req_sort)) ''retryable'' = Some (JBool True)"
  by (simp add: run_no_code env_variants(8) catch_block_fields axios_post_kind) (simp add: js_def)

text \<open>
  C7. When the handler has called the upstream and the upstream's response has a
  \<open>code\<close> string that normalises to the empty string, the reply has status 200 with
  \<open>status: true\<close> and the placeholder \<open>No code generated.\<close> as its code, the cache is
  unchanged and no cache write was made.
\<close>

theorem empty_code_gets_placeholder_and_no_cache_entry:
  assumes "generate e c req = (r, c', calls)" and "list_ex is_upstream_call calls"
    and "upstream e = Resolved result" and "get_prop result (js ''code'') = Some (JStr raw)"
    and "cleanCode raw = []"
  shows "http_status r = 200 \<and> field r ''status'' = Some (JBool True)
         \<and> field r ''code'' = Some (JStr (js ''No code generated.''))
         \<and> c' = c \<and> \<not> list_ex is_cache_write calls"
  using assms
  by (cases rule: generate_cases[of req e c])
     (auto simp: field_simps success_body_fields axios_post_kind)

text \<open>An upstream answer of two blanks and a backslash-n, for C7.\<close>

theorem empty_code_gets_placeholder_and_no_cache_entry_witness:
  "generate env_blank Map.empty req_sort =
     (res_json 200 (success_body (js ''No code generated.'')
        (JObj [(js ''code'', JStr (js ''  '' @ [backslash, letter_n]))]) (js ''gpt-4o'') (js ''Python'')),
      Map.empty,
      [CacheGet key_sort, axios_post (js ''gpt-4o'') (js ''Python'') (js ''sort a list'')])
   \<and> list_ex is_upstream_call
        [CacheGet key_sort, axios_post (js ''gpt-4o'') (js ''Python'') (js ''sort a list'')]
   \<and> cleanCode (js ''  '' @ [backslash, letter_n]) = []
   \<and> field (res_json 200 (success_body (js ''No code generated.'')
        (JObj [(js ''code'', JStr (js ''  '' @ [backslash, letter_n]))]) (js ''gpt-4o'') (js ''Python'')))
        ''code'' = Some (JStr (js ''No code generated.''))
   \<and> \<not> list_ex is_cache_write
        [CacheGet key_sort, axios_post (js ''gpt-4o'') (js ''Python'') (js ''sort a list'')]"
proof -
  have g: "generate env_blank Map.empty req_sort =
     (res_json 200 (success_body (js ''No code generated.'')
        (JObj [(js ''code'', JStr (js ''  '' @ [backslash, letter_n]))]) (js ''gpt-4o'') (js ''Python'')),
      Map.empty,
      [CacheGet key_sort, axios_post (js ''gpt-4o'') (js ''Python'') (js ''sort a list'')])"
    using generate_empty[OF req_sort_facts(1,2) env_blank_facts(1) empty_cache_misses
        env_blank_facts(2,3,4)]
    by (simp add: req_sort_facts)
  have u: "list_ex is_upstream_call
        [CacheGet key_sort, axios_post (js ''gpt-4o'') (js ''Python'') (js ''sort a list'')]"
    by (simp add: axios_post_kind)
  show ?thesis
    using empty_code_gets_placeholder_and_no_cache_entry[OF g u env_blank_facts(2,3,4)] g u
      env_blank_facts(4)
    by simp
qed

text \<open>
  C8 on the code: the model \<open>constructor\<close> is not in the supported set, yet the request
  is not rejected. \<open>CONFIG.models['constructor']\<close> is the inherited \<open>Object\<close> function,
  which is truthy, so the check of line 54 passes; the handler reads the cache, calls the
  upstream with \<open>contextLength: undefined\<close>, stores the result and answers with status
  200.
\<close>

theorem inherited_model_name_passes_validation:
  "model_of req_constructor = js ''constructor''
   \<and> js ''constructor'' \<notin> set (map fst CONFIG_models)
   \<and> generate env_ok Map.empty req_constructor =
       (res_json 200 (success_body (cleanCode raw_example)
          (JObj [(js ''code'', JStr raw_example), (js ''explanation'', JStr (js ''two lines''))])
          (js ''constructor'') (js ''JavaScript'')),
        redis_setEx Map.empty 102 (js ''codegen:constructor:JavaScript:c29ydCBhIGxpc3Q='') 3600
          (cleanCode raw_example),
        [CacheGet (js ''codegen:constructor:JavaScript:c29ydCBhIGxpc3Q=''),
         UpstreamPost (js ''constructor'') None
           (js ''You are an expert '' @ js ''JavaScript''
            @ js '' developer. Generate clean, efficient code with best practices.'')
           (finalPrompt (js ''JavaScript'') (js ''sort a list'')),
         CacheSetEx (js ''codegen:constructor:JavaScript:c29ydCBhIGxpc3Q='') 3600 (cleanCode raw_example)])
   \<and> http_status (fst (generate env_ok Map.empty req_constructor)) = 200"
proof -
  have "generate env_ok Map.empty req_constructor =
       (res_json 200 (success_body (cleanCode raw_example)
          (JObj [(js ''code'', JStr raw_example), (js ''explanation'', JStr (js ''two lines''))])
          (model_of req_constructor) (language_of req_constructor)),
        redis_setEx Map.empty (now env_ok + elapsed env_ok)
          (key_of req_constructor (js ''sort a list'')) CONFIG_cacheTTL (cleanCode raw_example),
        [CacheGet (key_of req_constructor (js ''sort a list'')),
         axios_post (model_of req_constructor) (language_of req_constructor) (js ''sort a list''),
         CacheSetEx (key_of req_constructor (js ''sort a list'')) CONFIG_cacheTTL
           (cleanCode raw_example)])"
    using req_constructor_facts(1,2) env_ok_facts(1) empty_cache_misses env_ok_facts(5,6,7,2)
    by (rule generate_stored)
  then have "generate env_ok Map.empty req_constructor =
       (res_json 200 (success_body (cleanCode raw_example)
          (JObj [(js ''code'', JStr raw_example), (js ''explanation'', JStr (js ''two lines''))])
          (js ''constructor'') (js ''JavaScript'')),
        redis_setEx Map.empty 102 (js ''codegen:constructor:JavaScript:c29ydCBhIGxpc3Q='') 3600
          (cleanCode raw_example),
        [CacheGet (js ''codegen:constructor:JavaScript:c29ydCBhIGxpc3Q=''),
         UpstreamPost (js ''constructor'') None
           (js ''You are an expert '' @ js ''JavaScript''
            @ js '' developer. Generate clean, efficient code with best practices.'')
           (finalPrompt (js ''JavaScript'') (js ''sort a list'')),
         CacheSetEx (js ''codegen:constructor:JavaScript:c29ydCBhIGxpc3Q='') 3600 (cleanCode raw_example)])"
    by (simp add: req_constructor_facts(3,4,6) key_of_req_constructor env_ok_facts
        CONFIG_cacheTTL_def axios_post_def)
  moreover from this
  have "http_status (fst (generate env_ok Map.empty req_constructor)) = 200"
    by (simp add: field_simps)
  ultimately show ?thesis
    using req_constructor_facts(3,5) by blast
qed

text \<open>
  C9 on the code: the reply of a cache hit is \<open>{status: true, code, cached: true}\<close>; it
  has no \<open>model\<close> and no \<open>language\<close> field.
\<close>

theorem cache_hit_reply_omits_model_and_language:
  "http_status (fst (generate env_later cache_warm req_sort)) = 200
   \<and> body (fst (generate env_later cache_warm req_sort)) =
       [(''status'', JBool True), (''code'', JStr (js ''xs.sort()'')), (''cached'', JBool True)]
   \<and> field (fst (generate env_later cache_warm req_sort)) ''model'' = None
   \<and> field (fst (generate env_later cache_warm req_sort)) ''language'' = None"
  by (simp add: run_hit field_simps) (simp add: res_json_def)

text \<open>
  C10. A request that is answered as a cache hit (\<open>cached: true\<close>) leaves the cache as it
  was: values and expiry times are those of before. The only call it makes is the one
  cache read; it makes no cache write and no upstream call.
\<close>

theorem cache_hit_leaves_cache_unchanged:
  assumes "generate e c req = (r, c', calls)" and "field r ''cached'' = Some (JBool True)"
  shows "c' = c \<and> (\<exists>k. calls = [CacheGet k])
         \<and> \<not> list_ex is_cache_write calls \<and> \<not> list_ex is_upstream_call calls"
  using assms
  by (cases rule: generate_cases[of req e c])
     (auto simp: field_simps catch_block_fields success_body_fields axios_post_kind)

text \<open>A cache hit for C10: the entry was stored before and has not expired.\<close>

theorem cache_hit_leaves_cache_unchanged_witness:
  "generate env_later cache_warm req_sort =
     (res_json 200 [(''status'', JBool True), (''code'', JStr (js ''xs.sort()'')),
                    (''cached'', JBool True)], cache_warm, [CacheGet key_sort])
   \<and> field (res_json 200 [(''status'', JBool True), (''code'', JStr (js ''xs.sort()'')),
                    (''cached'', JBool True)]) ''cached'' = Some (JBool True)
   \<and> \<not> list_ex is_cache_write [CacheGet key_sort]
   \<and> \<not> list_ex is_upstream_call [CacheGet key_sort]"
proof -
  let ?r = "res_json 200 [(''status'', JBool True), (''code'', JStr (js ''xs.sort()'')),
                    (''cached'', JBool True)]"
  have f: "field ?r ''cached'' = Some (JBool True)"
    by (simp add: field_simps)
  show ?thesis
    using cache_hit_leaves_cache_unchanged[OF run_hit f] run_hit f by simp
qed

end
